theory Spec2Isabelle
  imports Complex_Main "HOL-Library.Word" "HOL-Library.Char_ord" "HOL-Library.List_Lexorder"
    "HOL-Library.Signed_Division" "HOL-Library.Sublist"
begin

section \<open>Strings and formatting (the parts of strings and fmt the code uses)\<close>

text \<open>
  Go strings are byte sequences; a \<^typ>\<open>string\<close> is a list of bytes. The code calls
  \<open>strings.Index\<close> and \<open>strings.LastIndex\<close> with the one-byte needles \<open>":"\<close> and \<open>"/"\<close>
  only, so the needle is a single byte here. Both return \<open>-1\<close> when the byte is absent.
\<close>

fun Index :: "string \<Rightarrow> char \<Rightarrow> int" where
  "Index [] c = -1"
| "Index (x # xs) c =
     (if x = c then 0 else (let i = Index xs c in if i < 0 then -1 else i + 1))"

definition LastIndex :: "string \<Rightarrow> char \<Rightarrow> int" where
  "LastIndex s c = (let i = Index (rev s) c in if i < 0 then -1 else int (length s) - 1 - i)"

text \<open>
  \<open>basename\<close> (testworld.go): the slice after the last \<open>"/"\<close>, then the slice before the
  first \<open>":"\<close> of what is left.
\<close>

definition basename :: "string \<Rightarrow> string" where
  "basename s0 =
     (let i = LastIndex s0 CHR ''/'';
          s1 = (if i \<ge> 0 then drop (nat (i + 1)) s0 else s0);
          j = Index s1 CHR '':'';
          s2 = (if j \<ge> 0 then take (nat j) s1 else s1)
      in s2)"

text \<open>The same in the words of the specification: last path segment, tag suffix stripped.\<close>

definition last_segment :: "string \<Rightarrow> string" where
  "last_segment s = rev (takeWhile (\<lambda>c. c \<noteq> CHR ''/'') (rev s))"

definition strip_tag :: "string \<Rightarrow> string" where
  "strip_tag s = takeWhile (\<lambda>c. c \<noteq> CHR '':'') s"

text \<open>Decimal digits of a natural number, most significant first (the verb \<open>%d\<close>).\<close>

definition digit_char :: "int \<Rightarrow> char" where
  "digit_char d = ''0123456789'' ! nat d"

function digits10 :: "int \<Rightarrow> string" where
  "digits10 n = (if n < 10 then [digit_char n] else digits10 (n div 10) @ [digit_char (n mod 10)])"
  by pat_completeness auto
termination
  by (relation "measure nat") auto

declare digits10.simps [simp del]

definition itoa :: "int \<Rightarrow> string" where
  "itoa v = (if v < 0 then CHR ''-'' # digits10 (- v) else digits10 v)"

definition zero_pad :: "nat \<Rightarrow> string \<Rightarrow> string" where
  "zero_pad k s = replicate (k - length s) CHR ''0'' @ s"

text \<open>\<open>%03d\<close>: width 3, padded with zeros after the sign.\<close>

definition fmt03d :: "int \<Rightarrow> string" where
  "fmt03d v = (if v < 0 then CHR ''-'' # zero_pad 2 (digits10 (- v))
               else zero_pad 3 (digits10 v))"

section \<open>Durations and float64 arithmetic\<close>

text \<open>
  A \<open>time.Time\<close> is its reading of the process's monotonic clock in nanoseconds, a
  \<open>time.Duration\<close> is an \<open>int64\<close> count of nanoseconds, and \<open>Time.Sub\<close> saturates
  at the ends of the \<open>int64\<close> range.
\<close>

definition Sub :: "int \<Rightarrow> int \<Rightarrow> int" where
  "Sub t u = max (- (2 ^ 63)) (min (2 ^ 63 - 1) (t - u))"

text \<open>
  A finite \<open>float64\<close> is the rational number it denotes. \<open>float64 x\<close> rounds a rational
  to the nearest \<open>float64\<close>, ties to even, with 53 bits of precision and the subnormal
  spacing \<open>2 ^ -1074\<close> below \<open>2 ^ -1022\<close>; every arithmetic operation of the code is the
  exact operation followed by this rounding, as IEEE 754 defines it. Infinities, NaN and
  the sign of zero are not represented: the quantities here are durations in seconds
  (below \<open>2 ^ 34\<close>) and their quotients, and a division by zero is outside the model.
\<close>

definition round_half_even :: "rat \<Rightarrow> int" where
  "round_half_even x =
     (let f = \<lfloor>x\<rfloor>; r = x - of_int f
      in if r < 1 / 2 then f else if 1 / 2 < r then f + 1 else if even f then f else f + 1)"

function bit_length :: "int \<Rightarrow> int" where
  "bit_length n = (if n \<le> 0 then 0 else bit_length (n div 2) + 1)"
  by pat_completeness auto
termination
  by (relation "measure nat") auto

declare bit_length.simps [simp del]

text \<open>\<open>ilog2 x\<close> is the binary exponent of a positive rational: \<open>2 ^ e \<le> x < 2 ^ (e + 1)\<close>.\<close>

definition ilog2 :: "rat \<Rightarrow> int" where
  "ilog2 x =
     (let (p, q) = quotient_of x;
          e = bit_length p - bit_length q
      in if 2 powi e \<le> x then e else e - 1)"

definition float64 :: "rat \<Rightarrow> rat" where
  "float64 x =
     (if x = 0 then 0
      else let e = max (ilog2 \<bar>x\<bar>) (- 1022);
               q = 2 powi (e - 52)
           in of_int (round_half_even (x / q)) * q)"

definition fadd :: "rat \<Rightarrow> rat \<Rightarrow> rat" where
  "fadd a b = float64 (a + b)"

definition fdiv :: "rat \<Rightarrow> rat \<Rightarrow> rat" where
  "fdiv a b = float64 (a / b)"

definition fmul :: "rat \<Rightarrow> rat \<Rightarrow> rat" where
  "fmul a b = float64 (a * b)"

text \<open>
  \<open>Duration.Seconds\<close> (package time):
  \<^verbatim>\<open>sec := d / Second; nsec := d % Second; return float64(sec) + float64(nsec)/1e9\<close>,
  with Go's truncating integer division.
\<close>

definition Seconds :: "int \<Rightarrow> rat" where
  "Seconds d =
     (let sec = d sdiv 1000000000;
          nsec = d smod 1000000000
      in fadd (float64 (of_int sec)) (fdiv (float64 (of_int nsec)) 1000000000))"

text \<open>The conversion \<open>int(f)\<close> of a float: the fraction is discarded (towards zero).\<close>

definition trunc :: "rat \<Rightarrow> int" where
  "trunc x = (if 0 \<le> x then \<lfloor>x\<rfloor> else \<lceil>x\<rceil>)"

text \<open>\<open>%.3f\<close>: the exact value rounded to three decimals, ties to even.\<close>

definition fmt3f :: "rat \<Rightarrow> string" where
  "fmt3f x =
     (let m = round_half_even (\<bar>x\<bar> * 1000);
          s = digits10 (m div 1000) @ ''.'' @ zero_pad 3 (digits10 (m mod 1000))
      in if x < 0 then CHR ''-'' # s else s)"

section \<open>The data model\<close>

text \<open>
  \<open>ContainerSpec\<close> (container specification). The fields that only travel to the provider
  unchanged (\<open>Env\<close>, \<open>Files\<close>, \<open>Tmpfs\<close>, the two modifiers, \<open>WaitingFor\<close>) are left out;
  a callback is the number that identifies it, \<open>None\<close> is \<open>nil\<close>.
\<close>

record ContainerSpec =
  Image :: string
  FromDockerfile_Context :: string
  Started :: bool
  Awaited :: bool
  Replicas :: int
  Entrypoint :: "string list"
  Cmd :: "string list"
  ExposedPorts :: "string list"
  OnDestroy :: "nat option"

record GenericContainerRequest =
  req_Started :: bool
  req_Image :: string
  req_FromDockerfile_Context :: string
  req_Name :: string
  req_Networks :: "string list"
  req_NetworkAliases :: "(string \<times> string list) list"
  req_Entrypoint :: "string list"
  req_Cmd :: "string list"
  req_ExposedPorts :: "string list"

text \<open>A non-nil \<open>testcontainers.Container\<close> is the number the provider gave it.\<close>

type_synonym handle = nat

text \<open>
  \<open>pendingContainer\<close>: \<open>ready\<close> is whether the channel has been closed; \<open>container\<close> and
  \<open>err\<close> are \<open>nil\<close> (\<open>None\<close>) until the goroutine writes them. An \<open>error\<close> is its message.
\<close>

record pendingContainer =
  pc_name :: string
  ready :: bool
  container :: "handle option"
  err :: "string option"

text \<open>
  \<open>WorldContainer\<close>: \<open>pending\<close> holds pointers, which are positions in the world's store
  of pending containers (\<open>heap\<close> below). The value is copied when it is returned and when
  it is put in the world's map; the copies share the pending containers.
\<close>

record WorldContainer =
  Name :: string
  isReady :: bool
  pending :: "nat list"
  onDestroy :: "nat option"

text \<open>
  \<open>Event\<close>: \<open>ev_finishTime\<close> is \<open>None\<close> while the time is the zero \<open>time.Time\<close>; \<open>log\<close> is
  the name of the event's file in the events directory, \<open>None\<close> while it is \<open>nil\<close>. The id
  is an \<open>int64\<close>.
\<close>

record Event =
  ev_id :: "64 word"
  description :: string
  ev_startTime :: int
  ev_finishTime :: "int option"
  log :: "string option"
  log_closed :: bool

text \<open>
  \<open>WorldLog\<close>: \<open>enabled\<close> is \<open>el.world != nil\<close> (the dummy \<open>&WorldLog{}\<close> has no world).
  \<open>events\<close> holds pointers to events that are allocated once and never removed, so a
  pointer to an event is its position in \<open>events\<close>. The events directory is the list of
  its files, name and content; \<open>combinedLog\<close> is what has been written to the combined file.
\<close>

record WorldLog =
  enabled :: bool
  combinedLog :: string
  combinedLogPath :: string
  eventsDir :: "(string \<times> string) list"
  events :: "Event list"
  startTime :: int
  finishTime :: int
  eventCounter :: "64 word"

text \<open>
  The closure \<open>createFn\<close> started with \<open>go\<close>, with the variables it captured, and how far it
  has run: not yet, or past \<open>newEvent\<close> holding the event it got.
\<close>

datatype progress = Spawned | Running "nat option"

record goroutine =
  g_kind :: string
  g_replicaName :: string
  g_pc :: nat
  g_containerRequest :: GenericContainerRequest
  g_progress :: progress

text \<open>
  What the program does to the outside, in the order it does it: lines given to the test
  log, calls to the provider and to callbacks. The list is kept in the world (\<open>acts\<close>) as
  a record of the run; the program never reads it.
\<close>

datatype action =
    T_Log "string list"
  | T_Fatalf string
  | Provider_Create nat GenericContainerRequest
  | Provider_Cleanup "handle option"
  | Provider_Logs handle
  | Provider_Terminate handle
  | Call_onDestroy nat string
  | Call_WorldLog_finish

record World =
  name :: string
  cn :: string
  worldLog :: WorldLog
  containers :: "string \<rightharpoonup> WorldContainer"
  containerKinds :: "string \<rightharpoonup> int"
  heap :: "pendingContainer list"
  goroutines :: "goroutine list"
  ticks :: nat
  acts :: "action list"

text \<open>
  A callback (\<open>OnDestroy\<close>) is code of the test. What it does to the world it does
  through the operations the package gives it: it creates a group (\<open>NewContainer\<close>), it
  waits for a group (\<open>Await\<close>, and the first thing \<open>Exec\<close>, \<open>Wait\<close> and \<open>LogFile\<close> do:
  \<open>mustReady\<close>), it runs the body of the loop of \<open>Exec\<close>, \<open>Wait\<close> or \<open>LogFile\<close> for one
  member (\<open>newEvent\<close> with the given description and a call to the provider; then the
  output is copied to the event's file and \<open>event.finish()\<close> is called, or, \<open>None\<close>, the
  call failed or gave another result than expected and \<open>t.Fatalf\<close> is called), or it
  calls \<open>t.Fatalf\<close> itself. A run of a callback is the list of the operations it
  carries out.
\<close>

datatype user_op =
    Op_NewContainer ContainerSpec
  | Op_mustReady WorldContainer
  | Op_member string "string option"
  | Op_Fatalf

text \<open>
  The outside: the clock (the n-th reading of \<open>time.Now\<close>), the file system's and the
  provider's answers (\<open>filepath_Abs\<close> is the absolute path of a path, \<open>NewWorldLog_err\<close>
  the first error \<open>NewWorldLog\<close> meets), and what the callbacks do:
  \<open>onDestroy_code env cb c w\<close> is the run of the callback \<open>cb\<close> when it is called with
  the group \<open>c\<close> in the world \<open>w\<close>. \<open>GenericContainer\<close> returns a container and no
  error, or an error and possibly a container.
\<close>

datatype creation = Created handle | Failed "handle option" string

record environment =
  clock :: "nat \<Rightarrow> int"
  testing_Short :: bool
  network_New :: "string + string"
  filepath_Abs :: "string \<Rightarrow> string"
  NewWorldLog_err :: "string option"
  os_Create_ok :: "string \<Rightarrow> bool"
  provider_create :: "GenericContainerRequest \<Rightarrow> creation"
  provider_Logs :: "handle \<Rightarrow> string + string"
  io_Copy_ok :: "handle \<Rightarrow> bool"
  provider_Terminate :: "handle \<Rightarrow> string option"
  ReadDir_ok :: bool
  Open_ok :: "string \<Rightarrow> bool"
  Copy_ok :: "string \<Rightarrow> bool"
  onDestroy_code :: "nat \<Rightarrow> WorldContainer \<Rightarrow> World \<Rightarrow> user_op list"

text \<open>
  A call on the test's goroutine returns, or it is suspended at a receive from a channel
  that is not closed in this state (\<open>Blocks\<close>: it goes on once a goroutine has closed the
  channel), or the goroutine ends in the middle of the call (\<open>Panics\<close>): it dereferences
  \<open>nil\<close>, or a callback ends the test with \<open>t.Fatalf\<close>, which unwinds the callers.
\<close>

datatype 'a exec = Returns 'a | Blocks | Panics

section \<open>Files, clock and test log\<close>

definition nl :: string where
  "nl = [CHR 0x0A]"

fun file_put :: "string \<Rightarrow> string \<Rightarrow> (string \<times> string) list \<Rightarrow> (string \<times> string) list" where
  "file_put n c [] = [(n, c)]"
| "file_put n c ((m, d) # fs) = (if m = n then (n, c) # fs else (m, d) # file_put n c fs)"

definition file_get :: "(string \<times> string) list \<Rightarrow> string \<Rightarrow> string" where
  "file_get fs n = (case map_of fs n of None \<Rightarrow> [] | Some c \<Rightarrow> c)"

text \<open>\<open>os.Create\<close> makes the file or truncates it; \<open>Fprintln\<close> appends a line.\<close>

definition os_Create :: "string \<Rightarrow> (string \<times> string) list \<Rightarrow> (string \<times> string) list" where
  "os_Create n fs = file_put n [] fs"

definition file_append :: "string \<Rightarrow> string \<Rightarrow> (string \<times> string) list \<Rightarrow> (string \<times> string) list" where
  "file_append n text fs = file_put n (file_get fs n @ text) fs"

definition Fprintln :: "string \<Rightarrow> string \<Rightarrow> (string \<times> string) list \<Rightarrow> (string \<times> string) list" where
  "Fprintln n line fs = file_append n (line @ nl) fs"

text \<open>\<open>os.ReadDir\<close> returns the entries of the directory sorted by file name.\<close>

definition ReadDir :: "(string \<times> string) list \<Rightarrow> string list" where
  "ReadDir fs = sort (map fst fs)"

definition time_Now :: "environment \<Rightarrow> World \<Rightarrow> int \<times> World" where
  "time_Now env w = (clock env (ticks w), w\<lparr>ticks := Suc (ticks w)\<rparr>)"

definition act :: "action \<Rightarrow> World \<Rightarrow> World" where
  "act a w = w\<lparr>acts := acts w @ [a]\<rparr>"

definition t_Log :: "string list \<Rightarrow> World \<Rightarrow> World" where
  "t_Log operands w = act (T_Log operands) w"

section \<open>The event timeline (WorldLog)\<close>

text \<open>
  \<open>newEvent\<close>, between \<open>el.rw.Lock()\<close> and \<open>el.rw.Unlock()\<close>: the new event takes the
  counter as its id, is appended, and the counter is incremented. The lock makes this one
  step, whichever goroutine runs it. The result is the pointer to the event.
\<close>

definition newEvent_locked :: "int \<Rightarrow> WorldLog \<Rightarrow> nat \<times> WorldLog" where
  "newEvent_locked now el =
     (let event = \<lparr>ev_id = eventCounter el, description = [], ev_startTime = now,
                   ev_finishTime = None, log = None, log_closed = False\<rparr>
      in (length (events el),
          el\<lparr>events := events el @ [event], eventCounter := eventCounter el + 1\<rparr>))"

text \<open>
  \<open>newEvent\<close>; \<open>desc\<close> is the formatted description. What follows the unlock writes the
  new event and its own file only. The result is \<open>nil\<close> when the log is the dummy or the
  file cannot be created (the event stays in the list).
\<close>

definition newEvent :: "environment \<Rightarrow> string \<Rightarrow> World \<Rightarrow> nat option \<times> World" where
  "newEvent env desc w0 =
     (if \<not> enabled (worldLog w0) then (None, w0)
      else
        let (now, w) = time_Now env w0;
            (p, el) = newEvent_locked now (worldLog w);
            event = (events el ! p)\<lparr>description := desc\<rparr>;
            message = ''Event '' @ fmt03d (sint (ev_id event)) @ '' start:  '' @ desc;
            fname = ''event_'' @ fmt03d (sint (ev_id event)) @ ''.log''
        in if \<not> os_Create_ok env fname
           then (None, w\<lparr>worldLog := el\<lparr>events := (events el)[p := event]\<rparr>\<rparr>)
           else (Some p,
                 t_Log [message]
                   (w\<lparr>worldLog :=
                        el\<lparr>events := (events el)[p := event\<lparr>log := Some fname\<rparr>],
                           eventsDir := Fprintln fname message (os_Create fname (eventsDir el))\<rparr>\<rparr>)))"

text \<open>\<open>Event.finish\<close>; a write to a closed file fails and the code ignores it.\<close>

definition Event_finish :: "environment \<Rightarrow> nat option \<Rightarrow> World \<Rightarrow> World" where
  "Event_finish env event w0 =
     (case event of
        None \<Rightarrow> w0
      | Some p \<Rightarrow>
          let (now, w) = time_Now env w0;
              el = worldLog w;
              e = events el ! p;
              duration = Seconds (Sub now (ev_startTime e));
              message = ''Event '' @ fmt03d (sint (ev_id e)) @ '' finish: duration ''
                          @ fmt3f duration @ ''s'';
              dir = (case log e of
                       None \<Rightarrow> eventsDir el
                     | Some f \<Rightarrow> if log_closed e then eventsDir el
                                 else Fprintln f message (eventsDir el))
          in t_Log [message]
               (w\<lparr>worldLog := el\<lparr>events := (events el)[p := e\<lparr>ev_finishTime := Some now,
                                                                log_closed := True\<rparr>],
                                   eventsDir := dir\<rparr>\<rparr>))"

definition timelineWidth :: rat where
  "timelineWidth = 80"

text \<open>\<open>printGantt\<close>: the values computed for one event in the loop, and the line printed.\<close>

definition totalDuration :: "WorldLog \<Rightarrow> rat" where
  "totalDuration el = Seconds (Sub (finishTime el) (startTime el))"

definition bar_finishTime :: "WorldLog \<Rightarrow> Event \<Rightarrow> int" where
  "bar_finishTime el e = (case ev_finishTime e of None \<Rightarrow> finishTime el | Some t \<Rightarrow> t)"

definition startOffset :: "WorldLog \<Rightarrow> Event \<Rightarrow> rat" where
  "startOffset el e = Seconds (Sub (ev_startTime e) (startTime el))"

definition duration :: "WorldLog \<Rightarrow> Event \<Rightarrow> rat" where
  "duration el e = Seconds (Sub (bar_finishTime el e) (ev_startTime e))"

definition startPos :: "WorldLog \<Rightarrow> Event \<Rightarrow> int" where
  "startPos el e = max (trunc (fmul (fdiv (startOffset el e) (totalDuration el)) timelineWidth)) 0"

definition barLen :: "WorldLog \<Rightarrow> Event \<Rightarrow> int" where
  "barLen el e = max (trunc (fmul (fdiv (duration el e) (totalDuration el)) timelineWidth)) 1"

definition gantt_line :: "WorldLog \<Rightarrow> Event \<Rightarrow> string" where
  "gantt_line el e =
     (let padding = replicate (nat (startPos el e)) CHR '' '';
          bar = replicate (nat (barLen el e)) CHR ''#''
      in fmt03d (sint (ev_id e)) @ '' |'' @ padding @ ''['' @ bar @ ''] (''
           @ fmt3f (duration el e) @ ''s) '' @ description e @ nl)"

definition printGantt :: "WorldLog \<Rightarrow> WorldLog" where
  "printGantt el =
     (if \<not> enabled el then el
      else el\<lparr>combinedLog := combinedLog el
                 @ ''Event Timeline (Total: '' @ fmt3f (totalDuration el) @ ''s):'' @ nl
                 @ ''ID  | Process Visualization'' @ nl
                 @ ''----|'' @ replicate 80 CHR ''-'' @ nl
                 @ concat (map (gantt_line el) (events el))\<rparr>)"

text \<open>
  \<open>WorldLog.finish\<close>: the loop over the directory's entries, stopping at the first file
  that cannot be opened or copied, then the whole function. The result is the error.
\<close>

fun concat_logs ::
  "environment \<Rightarrow> (string \<times> string) list \<Rightarrow> string list \<Rightarrow> string \<Rightarrow> string option \<times> string" where
  "concat_logs env dir [] out = (None, out)"
| "concat_logs env dir (f # fs) out =
     (if \<not> Open_ok env f then (Some (''failed to open event log file '' @ f), out)
      else if \<not> Copy_ok env f then (Some (''failed to copy event log file '' @ f), out)
      else concat_logs env dir fs (out @ file_get dir f))"

definition WorldLog_finish :: "environment \<Rightarrow> World \<Rightarrow> string option \<times> World" where
  "WorldLog_finish env w0 =
     (if \<not> enabled (worldLog w0) then (None, w0)
      else
        let (now, w) = time_Now env w0;
            el = printGantt ((worldLog w)\<lparr>finishTime := now\<rparr>);
            el = el\<lparr>combinedLog := combinedLog el @ nl @ nl @ ''Event Logs:'' @ nl\<rparr>
        in if \<not> ReadDir_ok env
           then (Some ''failed to read event logs directory'', w\<lparr>worldLog := el\<rparr>)
           else
             let (e, out) = concat_logs env (eventsDir el) (ReadDir (eventsDir el)) (combinedLog el);
                 w = w\<lparr>worldLog := el\<lparr>combinedLog := out\<rparr>\<rparr>
             in (case e of
                   Some m \<Rightarrow> (Some m, w)
                 | None \<Rightarrow> (None, t_Log [''World destroyed, event logs written to '',
                                         combinedLogPath el] w)))"

section \<open>Waiting for a group\<close>

text \<open>
  \<open>waitReady\<close>: the loop over \<open>wc.pending\<close> with its index, then the function, which
  starts from a slice of \<open>nil\<close>s. \<open>fmt.Errorf("%s: %w", pc.name, pc.err)\<close> is the error
  whose message is the name, a colon and the message of \<open>pc.err\<close>.
\<close>

fun waitReady_loop ::
  "pendingContainer list \<Rightarrow> nat list \<Rightarrow> nat \<Rightarrow> handle option list
     \<Rightarrow> (handle option list \<times> string option) exec" where
  "waitReady_loop h [] i cs = Returns (cs, None)"
| "waitReady_loop h (pc # pcs) i cs =
     (if \<not> ready (h ! pc) then Blocks
      else case err (h ! pc) of
             Some e \<Rightarrow> Returns (cs, Some (pc_name (h ! pc) @ '': '' @ e))
           | None \<Rightarrow> waitReady_loop h pcs (Suc i) (cs[i := container (h ! pc)]))"

definition waitReady :: "WorldContainer \<Rightarrow> World \<Rightarrow> (handle option list \<times> string option) exec" where
  "waitReady wc w =
     waitReady_loop (heap w) (pending wc) 0 (replicate (length (pending wc)) None)"

text \<open>
  \<open>mustReady\<close>. \<open>t.Fatalf\<close> ends the test's goroutine after running the deferred
  \<open>event.finish()\<close>; the result is then \<open>Inl\<close> of the message. The receiver is the
  caller's copy of the group, returned with \<open>isReady\<close> set.
\<close>

definition mustReady ::
  "environment \<Rightarrow> WorldContainer \<Rightarrow> World
     \<Rightarrow> ((string + handle option list) \<times> WorldContainer \<times> World) exec" where
  "mustReady env wc w0 =
     (let (event, w) = (if \<not> isReady wc then newEvent env (Name wc @ '': await'') w0
                        else (None, w0))
      in case waitReady wc w of
           Blocks \<Rightarrow> Blocks
         | Panics \<Rightarrow> Panics
         | Returns (cs, Some e) \<Rightarrow>
             (let m = ''Container '' @ Name wc @ '' failed to create: '' @ e
              in Returns (Inl m, wc, Event_finish env event (act (T_Fatalf m) w)))
         | Returns (cs, None) \<Rightarrow>
             Returns (Inr cs, wc\<lparr>isReady := True\<rparr>, Event_finish env event w))"

text \<open>\<open>Await\<close> is \<open>mustReady\<close> with the containers dropped.\<close>

definition Await ::
  "environment \<Rightarrow> WorldContainer \<Rightarrow> World \<Rightarrow> (string option \<times> WorldContainer \<times> World) exec" where
  "Await env wc w =
     (case mustReady env wc w of
        Blocks \<Rightarrow> Blocks
      | Panics \<Rightarrow> Panics
      | Returns (r, wc', w') \<Rightarrow>
          Returns ((case r of Inl m \<Rightarrow> Some m | Inr cs \<Rightarrow> None), wc', w'))"

section \<open>Creating the world\<close>

text \<open>
  \<open>NewWorldLog\<close>: the start time is read first; any failure to make the path absolute,
  to make the directories or to create the combined file gives the error and no log.
  The combined file is in the directory \<open>filepath.Abs\<close> gives for the path.
\<close>

definition NewWorldLog :: "environment \<Rightarrow> string \<Rightarrow> World \<Rightarrow> (string + WorldLog) \<times> World" where
  "NewWorldLog env path w0 =
     (let (now, w) = time_Now env w0
      in case NewWorldLog_err env of
           Some e \<Rightarrow> (Inl e, w)
         | None \<Rightarrow>
             (Inr \<lparr>enabled = True, combinedLog = [],
                   combinedLogPath = filepath_Abs env path @ ''/log_'' @ name w @ ''_events.log'',
                   eventsDir = [], events = [], startTime = now, finishTime = 0,
                   eventCounter = 0\<rparr>, w))"

text \<open>The dummy \<open>&WorldLog{}\<close>: every field is the zero value.\<close>

definition dummy_WorldLog :: WorldLog where
  "dummy_WorldLog =
     \<lparr>enabled = False, combinedLog = [], combinedLogPath = [], eventsDir = [], events = [],
      startTime = 0, finishTime = 0, eventCounter = 0\<rparr>"

text \<open>
  \<open>New\<close>: \<open>Inl\<close> is the message of \<open>t.Skip\<close> or \<open>t.Fatalf\<close>, which end the test; no
  world is returned then (the \<open>Destroy\<close> before \<open>t.Fatalf\<close> finds no container in it).
  \<open>tname\<close> is \<open>t.Name()\<close>.
\<close>

definition New :: "environment \<Rightarrow> string \<Rightarrow> string \<Rightarrow> string + World" where
  "New env tname logPath =
     (if testing_Short env then Inl ''skipping testworld test in short mode''
      else
        let w = \<lparr>name = tname, cn = [], worldLog = dummy_WorldLog, containers = Map.empty,
                 containerKinds = Map.empty, heap = [], goroutines = [], ticks = 0, acts = []\<rparr>;
            w = (if logPath \<noteq> []
                 then (case NewWorldLog env logPath w of
                         (Inl e, w') \<Rightarrow>
                           (t_Log [''Failed to create world log:'', e] w')\<lparr>worldLog := dummy_WorldLog\<rparr>
                       | (Inr el, w') \<Rightarrow> w'\<lparr>worldLog := el\<rparr>)
                 else w);
            (event, w) = newEvent env ''World: Create'' w
        in case network_New env of
             Inl e \<Rightarrow> Inl (''Failed to create network: '' @ e)
           | Inr netname \<Rightarrow> Inr (Event_finish env event (w\<lparr>cn := netname\<rparr>)))"

section \<open>Creating containers\<close>

definition toGenericContainerRequest ::
  "ContainerSpec \<Rightarrow> string \<Rightarrow> string \<Rightarrow> string list \<Rightarrow> GenericContainerRequest" where
  "toGenericContainerRequest spec nm networkName aliases =
     \<lparr>req_Started = Started spec, req_Image = Image spec,
      req_FromDockerfile_Context = FromDockerfile_Context spec, req_Name = nm,
      req_Networks = [networkName], req_NetworkAliases = [(networkName, aliases)],
      req_Entrypoint = Entrypoint spec, req_Cmd = Cmd spec,
      req_ExposedPorts = ExposedPorts spec\<rparr>"

text \<open>Reading a Go map of integers gives 0 for a key that is absent.\<close>

definition kind_count :: "(string \<rightharpoonup> int) \<Rightarrow> string \<Rightarrow> int" where
  "kind_count m k = (case m k of None \<Rightarrow> 0 | Some c \<Rightarrow> c)"

text \<open>
  The loop \<open>for i := range replicas\<close> of \<open>NewContainer\<close>, over the indices still to do.
  Each round allocates a pending container (its pointer is the next free position of the
  store), stores the pointer at index \<open>i\<close> of \<open>pending\<close>, which is the end of what has been
  filled so far, builds the request and starts \<open>createFn\<close> with \<open>go\<close>: the closure joins
  the goroutines that have not run yet. No field of the specification decides between
  \<open>go createFn()\<close> and a direct call.
\<close>

fun spawn_replicas ::
  "ContainerSpec \<Rightarrow> string \<Rightarrow> string \<Rightarrow> int \<Rightarrow> nat list \<Rightarrow> nat list \<Rightarrow> World
     \<Rightarrow> nat list \<times> World" where
  "spawn_replicas spec kind nm replicas [] pend w = (pend, w)"
| "spawn_replicas spec kind nm replicas (i # is) pend w =
     (let replicaName = (if replicas > 1 then nm @ ''-'' @ itoa (int i + 1) else nm);
          aliases = (if replicas > 1 then [replicaName, nm] else [nm]);
          pc = length (heap w);
          w1 = w\<lparr>heap := heap w @ [\<lparr>pc_name = replicaName, ready = False,
                                      container = None, err = None\<rparr>]\<rparr>;
          containerRequest = toGenericContainerRequest spec replicaName (cn w1) aliases;
          w2 = w1\<lparr>goroutines := goroutines w1 @
                   [\<lparr>g_kind = kind, g_replicaName = replicaName, g_pc = pc,
                     g_containerRequest = containerRequest, g_progress = Spawned\<rparr>]\<rparr>
      in spawn_replicas spec kind nm replicas is (pend @ [pc]) w2)"

text \<open>
  \<open>NewContainer\<close>. The slice \<open>pending\<close> is shared by the value put in \<open>w.containers\<close> before
  the loop and the value returned after it, so both hold the pointers the loop stores;
  the model puts the value in the map once they are known. The counter of a kind is a Go
  \<open>int\<close>, which no run increments often enough to wrap.
\<close>

definition NewContainer :: "ContainerSpec \<Rightarrow> World \<Rightarrow> WorldContainer \<times> World" where
  "NewContainer spec w0 =
     (let kind = basename (Image spec);
          kind = (if kind = [] then basename (FromDockerfile_Context spec) else kind);
          kind = (if kind = [] then ''container'' else kind);
          w = w0\<lparr>containerKinds := (containerKinds w0)(kind \<mapsto> kind_count (containerKinds w0) kind + 1)\<rparr>;
          nm = name w @ ''-'' @ kind @ ''-'' @ itoa (kind_count (containerKinds w) kind);
          replicas = max (Replicas spec) 1;
          (pend, w) = spawn_replicas spec kind nm replicas [0..<nat replicas] [] w;
          wc = \<lparr>Name = nm, isReady = False, pending = pend, onDestroy = OnDestroy spec\<rparr>
      in (wc, w\<lparr>containers := (containers w)(nm \<mapsto> wc)\<rparr>))"

section \<open>Teardown\<close>

text \<open>\<open>logOneInternal\<close>: the event is finished on every path (it is deferred).\<close>

definition logOneInternal ::
  "environment \<Rightarrow> string \<Rightarrow> handle \<Rightarrow> World \<Rightarrow> string option \<times> World" where
  "logOneInternal env nm c w0 =
     (let (event, w) = newEvent env (nm @ '': logs'') w0;
          w = act (Provider_Logs c) w
      in case provider_Logs env c of
           Inl e \<Rightarrow> (Some (''failed to get logs: '' @ e), Event_finish env event w)
         | Inr content \<Rightarrow>
             (case event of
                None \<Rightarrow> (None, w)
              | Some p \<Rightarrow>
                  if \<not> io_Copy_ok env c
                  then (Some ''failed to copy logs'', Event_finish env event w)
                  else
                    let el = worldLog w;
                        dir = (case log (events el ! p) of
                                 None \<Rightarrow> eventsDir el
                               | Some f \<Rightarrow> file_append f content (eventsDir el))
                    in (None, Event_finish env event (w\<lparr>worldLog := el\<lparr>eventsDir := dir\<rparr>\<rparr>))))"

text \<open>
  The copy of a member's output to the file of an event (\<open>io.Copy\<close>, \<open>stdcopy.StdCopy\<close>
  with \<open>event.log\<close>), skipped when the event is \<open>nil\<close>.
\<close>

definition Event_write :: "nat option \<Rightarrow> string \<Rightarrow> World \<Rightarrow> World" where
  "Event_write event content w =
     (case event of
        None \<Rightarrow> w
      | Some p \<Rightarrow>
          (case log (events (worldLog w) ! p) of
             None \<Rightarrow> w
           | Some f \<Rightarrow>
               w\<lparr>worldLog := (worldLog w)\<lparr>eventsDir := file_append f content (eventsDir (worldLog w))\<rparr>\<rparr>))"

text \<open>
  The run of a callback, operation by operation. \<open>mustReady\<close> that fails has called
  \<open>t.Fatalf\<close>; the loop body of \<open>Exec\<close>, \<open>Wait\<close> and \<open>LogFile\<close> calls it before
  \<open>event.finish()\<close>. \<open>run_onDestroy\<close> is the call \<open>c.onDestroy(c)\<close>.
\<close>

fun user_code :: "environment \<Rightarrow> user_op list \<Rightarrow> World \<Rightarrow> World exec" where
  "user_code env [] w = Returns w"
| "user_code env (Op_NewContainer spec # ops) w = user_code env ops (snd (NewContainer spec w))"
| "user_code env (Op_mustReady wc # ops) w =
     (case mustReady env wc w of
        Blocks \<Rightarrow> Blocks
      | Panics \<Rightarrow> Panics
      | Returns (Inl m, wc', w') \<Rightarrow> Panics
      | Returns (Inr cs, wc', w') \<Rightarrow> user_code env ops w')"
| "user_code env (Op_member d None # ops) w = Panics"
| "user_code env (Op_member d (Some content) # ops) w =
     user_code env ops
       (Event_finish env (fst (newEvent env d w))
          (Event_write (fst (newEvent env d w)) content (snd (newEvent env d w))))"
| "user_code env (Op_Fatalf # ops) w = Panics"

definition run_onDestroy :: "environment \<Rightarrow> nat \<Rightarrow> WorldContainer \<Rightarrow> World \<Rightarrow> World exec" where
  "run_onDestroy env cb c w0 =
     (let w = act (Call_onDestroy cb (Name c)) w0
      in user_code env (onDestroy_code env cb c w) w)"

text \<open>
  \<open>Destroy\<close>, from the inside out: the body of the loop over \<open>c.pending\<close>, that loop, the
  body of the loop over \<open>w.containers\<close>, that loop, the function. A \<open>range\<close> over a Go map
  visits the keys in an order the runtime chooses: \<open>order\<close> is that order. The call of
  a callback is recorded and its run is carried out; \<open>Destroy\<close> goes on when the callback
  returns.
\<close>

definition Destroy_pc :: "environment \<Rightarrow> nat \<Rightarrow> World \<Rightarrow> World exec" where
  "Destroy_pc env pc w0 =
     (let s = heap w0 ! pc
      in if \<not> ready s then Blocks
         else case err s of
                Some e \<Rightarrow>
                  Returns (t_Log [''Container '', pc_name s, '' failed to create: '', e] w0)
              | None \<Rightarrow>
                  (case container s of
                     None \<Rightarrow> Panics
                   | Some c \<Rightarrow>
                       let (e1, w) = logOneInternal env (pc_name s) c w0;
                           w = (case e1 of
                                  None \<Rightarrow> w
                                | Some m \<Rightarrow> t_Log [''Failed to collect logs for container '',
                                                    pc_name s, '': '', m] w);
                           w = act (Provider_Terminate c) w;
                           w = (case provider_Terminate env c of
                                  None \<Rightarrow> w
                                | Some m \<Rightarrow> t_Log [''Failed to terminate container '',
                                                    pc_name s, '': '', m] w)
                       in Returns w))"

fun Destroy_pending :: "environment \<Rightarrow> nat list \<Rightarrow> World \<Rightarrow> World exec" where
  "Destroy_pending env [] w = Returns w"
| "Destroy_pending env (pc # pcs) w =
     (case Destroy_pc env pc w of
        Returns w' \<Rightarrow> Destroy_pending env pcs w'
      | Blocks \<Rightarrow> Blocks
      | Panics \<Rightarrow> Panics)"

definition Destroy_container :: "environment \<Rightarrow> WorldContainer \<Rightarrow> World \<Rightarrow> World exec" where
  "Destroy_container env c w =
     (case Destroy_pending env (pending c) w of
        Returns w' \<Rightarrow>
          (case onDestroy c of
             None \<Rightarrow> Returns w'
           | Some cb \<Rightarrow> run_onDestroy env cb c w')
      | Blocks \<Rightarrow> Blocks
      | Panics \<Rightarrow> Panics)"

fun Destroy_containers :: "environment \<Rightarrow> string list \<Rightarrow> World \<Rightarrow> World exec" where
  "Destroy_containers env [] w = Returns w"
| "Destroy_containers env (n # ns) w =
     (case containers w n of
        None \<Rightarrow> Destroy_containers env ns w
      | Some c \<Rightarrow>
          (case Destroy_container env c w of
             Returns w' \<Rightarrow> Destroy_containers env ns w'
           | Blocks \<Rightarrow> Blocks
           | Panics \<Rightarrow> Panics))"

definition Destroy :: "environment \<Rightarrow> string list \<Rightarrow> World \<Rightarrow> World exec" where
  "Destroy env order w0 =
     (let (event, w) = newEvent env ''World: destroy'' w0
      in case Destroy_containers env order w of
           Returns w' \<Rightarrow>
             Returns (snd (WorldLog_finish env (act Call_WorldLog_finish (Event_finish env event w'))))
         | Blocks \<Rightarrow> Blocks
         | Panics \<Rightarrow> Panics)"

text \<open>The method on a world pointer: nothing happens for \<open>nil\<close>.\<close>

definition Destroy_ptr :: "environment \<Rightarrow> string list \<Rightarrow> World option \<Rightarrow> World option exec" where
  "Destroy_ptr env order wp =
     (case wp of
        None \<Rightarrow> Returns None
      | Some w \<Rightarrow> (case Destroy env order w of
                     Returns w' \<Rightarrow> Returns (Some w')
                   | Blocks \<Rightarrow> Blocks
                   | Panics \<Rightarrow> Panics))"

section \<open>The goroutines and the steps of a run\<close>

text \<open>
  \<open>createFn\<close> in two steps, so that other goroutines can run between them: up to the
  return of \<open>newEvent\<close>, and from the call of the provider to the end (the results are
  written, the channel is closed, the deferred \<open>event.finish()\<close> runs and the goroutine is
  gone). \<open>i\<close> is the position of the goroutine among those that have not ended.
\<close>

definition createFn_begin :: "environment \<Rightarrow> nat \<Rightarrow> World \<Rightarrow> World" where
  "createFn_begin env i w0 =
     (let g = goroutines w0 ! i;
          (event, w) = newEvent env (''World: add '' @ g_kind g @ '' container '' @ g_replicaName g) w0
      in w\<lparr>goroutines := (goroutines w)[i := g\<lparr>g_progress := Running event\<rparr>]\<rparr>)"

definition createFn_end :: "environment \<Rightarrow> nat \<Rightarrow> World \<Rightarrow> World" where
  "createFn_end env i w0 =
     (let g = goroutines w0 ! i;
          event = (case g_progress g of Running ev \<Rightarrow> ev | Spawned \<Rightarrow> None);
          (c, e) = (case provider_create env (g_containerRequest g) of
                      Created h \<Rightarrow> (Some h, None)
                    | Failed c' m \<Rightarrow> (c', Some m));
          w = act (Provider_Cleanup c) (act (Provider_Create (g_pc g) (g_containerRequest g)) w0);
          w = w\<lparr>heap := (heap w)[g_pc g := (heap w ! g_pc g)\<lparr>container := c, err := e, ready := True\<rparr>]\<rparr>;
          w = Event_finish env event w
      in w\<lparr>goroutines := take i (goroutines w) @ drop (Suc i) (goroutines w)\<rparr>)"

text \<open>
  One step of the program: a goroutine runs one of its two steps, or the test's goroutine
  completes a call. The other methods of a group (\<open>Exec\<close>, \<open>Wait\<close>, \<open>LogFile\<close>) are
  \<open>mustReady\<close> followed, for each member, by \<open>newEvent\<close>, a call to the provider and
  \<open>Event.finish\<close> on the event obtained; the last two rules are these steps.
\<close>

inductive step :: "environment \<Rightarrow> World \<Rightarrow> World \<Rightarrow> bool" for env :: environment where
  go_begin: "i < length (goroutines w) \<Longrightarrow> g_progress (goroutines w ! i) = Spawned
               \<Longrightarrow> step env w (createFn_begin env i w)"
| go_end: "i < length (goroutines w) \<Longrightarrow> g_progress (goroutines w ! i) = Running ev
               \<Longrightarrow> step env w (createFn_end env i w)"
| call_NewContainer: "step env w (snd (NewContainer spec w))"
| call_mustReady: "mustReady env wc w = Returns (r, wc', w') \<Longrightarrow> step env w w'"
| call_Destroy: "Destroy env order w = Returns w' \<Longrightarrow> step env w w'"
| call_newEvent: "step env w (snd (newEvent env d w))"
| call_Event_finish: "p < length (events (worldLog w)) \<Longrightarrow> step env w (Event_finish env (Some p) w)"

text \<open>The worlds a test can reach from the one \<open>New\<close> returned.\<close>

inductive reachable :: "environment \<Rightarrow> World \<Rightarrow> bool" for env :: environment where
  start: "New env tname logPath = Inr w \<Longrightarrow> reachable env w"
| next_step: "reachable env w \<Longrightarrow> step env w w' \<Longrightarrow> reachable env w'"

text \<open>
  A schedule that lets every goroutine run to its end, the oldest first; \<open>run_goroutines\<close>
  does it for the given number of goroutines, \<open>run_all\<close> for all there are.
\<close>

definition run_first :: "environment \<Rightarrow> World \<Rightarrow> World" where
  "run_first env w =
     (if goroutines w = [] then w
      else createFn_end env 0
             (case g_progress (goroutines w ! 0) of
                Spawned \<Rightarrow> createFn_begin env 0 w
              | Running ev \<Rightarrow> w))"

fun run_goroutines :: "environment \<Rightarrow> nat \<Rightarrow> World \<Rightarrow> World" where
  "run_goroutines env 0 w = w"
| "run_goroutines env (Suc n) w = run_goroutines env n (run_first env w)"

definition run_all :: "environment \<Rightarrow> World \<Rightarrow> World" where
  "run_all env w = run_goroutines env (length (goroutines w)) w"

section \<open>Notions the properties are stated with\<close>

text \<open>
  The kind of a container in the words of the specification: the last path segment of
  the image with the tag stripped, else the same of the build context, else
  \<open>"container"\<close>.
\<close>

definition spec_kind :: "ContainerSpec \<Rightarrow> string" where
  "spec_kind spec =
     (if strip_tag (last_segment (Image spec)) \<noteq> [] then strip_tag (last_segment (Image spec))
      else if strip_tag (last_segment (FromDockerfile_Context spec)) \<noteq> []
           then strip_tag (last_segment (FromDockerfile_Context spec))
      else ''container'')"

text \<open>The value of a string of decimal digits.\<close>

definition digit_val :: "char \<Rightarrow> int" where
  "digit_val c = int (of_char c) - 48"

definition undigits :: "string \<Rightarrow> int" where
  "undigits s = foldl (\<lambda>a c. a * 10 + digit_val c) 0 s"

text \<open>The pending container and the goroutine that round \<open>i\<close> of the loop makes.\<close>

definition replicaName :: "string \<Rightarrow> int \<Rightarrow> nat \<Rightarrow> string" where
  "replicaName nm replicas i = (if replicas > 1 then nm @ ''-'' @ itoa (int i + 1) else nm)"

definition replica_aliases :: "string \<Rightarrow> int \<Rightarrow> nat \<Rightarrow> string list" where
  "replica_aliases nm replicas i =
     (if replicas > 1 then [replicaName nm replicas i, nm] else [nm])"

definition new_pc :: "string \<Rightarrow> int \<Rightarrow> nat \<Rightarrow> pendingContainer" where
  "new_pc nm replicas i =
     \<lparr>pc_name = replicaName nm replicas i, ready = False, container = None, err = None\<rparr>"

definition new_goroutine ::
  "ContainerSpec \<Rightarrow> string \<Rightarrow> string \<Rightarrow> int \<Rightarrow> string \<Rightarrow> nat \<Rightarrow> nat \<Rightarrow> goroutine" where
  "new_goroutine spec kind nm replicas net i pc =
     \<lparr>g_kind = kind, g_replicaName = replicaName nm replicas i, g_pc = pc,
      g_containerRequest =
        toGenericContainerRequest spec (replicaName nm replicas i) net (replica_aliases nm replicas i),
      g_progress = Spawned\<rparr>"

text \<open>
  The ids of a timeline are in order: the counter is the number of events, and the event
  at position \<open>i\<close> has id \<open>i\<close> (as \<open>int64\<close> values).
\<close>

definition ids_ok :: "WorldLog \<Rightarrow> bool" where
  "ids_ok el \<longleftrightarrow>
     eventCounter el = of_nat (length (events el)) \<and>
     map ev_id (events el) = map of_nat [0..<length (events el)]"

text \<open>What a later state of a timeline keeps of an earlier one.\<close>

definition grows :: "WorldLog \<Rightarrow> WorldLog \<Rightarrow> bool" where
  "grows el el' \<longleftrightarrow>
     enabled el' = enabled el \<and> startTime el' = startTime el \<and>
     combinedLogPath el' = combinedLogPath el \<and>
     length (events el) \<le> length (events el') \<and> (ids_ok el \<longrightarrow> ids_ok el')"

text \<open>
  \<open>same_state w w'\<close>: from \<open>w\<close> to \<open>w'\<close> nothing changed but the timeline, the clock and the
  record of actions.
\<close>

definition same_state :: "World \<Rightarrow> World \<Rightarrow> bool" where
  "same_state w w' \<longleftrightarrow>
     heap w' = heap w \<and> goroutines w' = goroutines w \<and> name w' = name w \<and> cn w' = cn w \<and>
     containers w' = containers w \<and> containerKinds w' = containerKinds w \<and>
     grows (worldLog w) (worldLog w')"

text \<open>The lines the timeline mirrors to the test log: one operand, starting with \<open>Event\<close>.\<close>

definition event_lines :: "action list \<Rightarrow> bool" where
  "event_lines as \<longleftrightarrow> (\<forall>a \<in> set as. \<exists>m. a = T_Log [''Event '' @ m])"

text \<open>\<open>effect w w' as\<close>: as \<open>same_state\<close>, and the actions \<open>as\<close> were done.\<close>

definition effect :: "World \<Rightarrow> World \<Rightarrow> action list \<Rightarrow> bool" where
  "effect w w' as \<longleftrightarrow> same_state w w' \<and> acts w' = acts w @ as"

text \<open>The pending containers the provider was asked to create a container for, in order.\<close>

fun provisionings :: "action list \<Rightarrow> nat list" where
  "provisionings [] = []"
| "provisionings (Provider_Create p r # as) = p # provisionings as"
| "provisionings (a # as) = provisionings as"

text \<open>
  The actions of a teardown that the specification speaks of: the report of a failed
  creation, the collection of logs, the termination, the callback and the finalisation
  of the timeline. (The lines of events and the reports of failed collections and
  terminations are the others.)
\<close>

fun teardown_action :: "action \<Rightarrow> bool" where
  "teardown_action (T_Log ops) = (ops \<noteq> [] \<and> hd ops = ''Container '')"
| "teardown_action (Provider_Logs c) = True"
| "teardown_action (Provider_Terminate c) = True"
| "teardown_action (Call_onDestroy cb n) = True"
| "teardown_action Call_WorldLog_finish = True"
| "teardown_action a = False"

text \<open>
  The teardown in the words of the specification. For a member: a failed creation is
  reported and nothing else is done; otherwise its logs are collected, then it is
  terminated. For a group: its members in order, then its callback if it has one. For
  the world: the groups in the order of the iteration, then the timeline is finalised.
\<close>

definition pc_teardown :: "pendingContainer \<Rightarrow> action list" where
  "pc_teardown s =
     (case err s of
        Some e \<Rightarrow> [T_Log [''Container '', pc_name s, '' failed to create: '', e]]
      | None \<Rightarrow> (case container s of
                   None \<Rightarrow> []
                 | Some c \<Rightarrow> [Provider_Logs c, Provider_Terminate c]))"





text \<open>
  \<open>teardown_effect w w' X\<close>: from \<open>w\<close> to \<open>w'\<close> the provider was not asked to create
  anything, and the teardown actions done were \<open>X\<close>.
\<close>

definition teardown_effect :: "World \<Rightarrow> World \<Rightarrow> action list \<Rightarrow> bool" where
  "teardown_effect w w' X \<longleftrightarrow>
     (\<exists>as. effect w w' as \<and> provisionings as = [] \<and> filter teardown_action as = X)"

text \<open>
  What holds in every world a test can reach: a goroutine that has not ended owns a
  pending container that is not resolved, no two goroutines own the same one, the
  provider has been asked once for each resolved pending container and never for the
  others, and the ids of the timeline are in order.
\<close>

definition world_inv :: "World \<Rightarrow> bool" where
  "world_inv w \<longleftrightarrow>
     (\<forall>p \<in> set (map g_pc (goroutines w)). p < length (heap w) \<and> \<not> ready (heap w ! p)) \<and>
     distinct (map g_pc (goroutines w)) \<and>
     (\<forall>p. count_list (provisionings (acts w)) p
            = (if p < length (heap w) \<and> ready (heap w ! p) then 1 else 0)) \<and>
     ids_ok (worldLog w)"

text \<open>What a later world keeps of an earlier one.\<close>

definition advance :: "World \<Rightarrow> World \<Rightarrow> bool" where
  "advance w w' \<longleftrightarrow>
     name w' = name w \<and> cn w' = cn w \<and> grows (worldLog w) (worldLog w') \<and>
     (\<forall>k. kind_count (containerKinds w) k \<le> kind_count (containerKinds w') k) \<and>
     length (heap w) \<le> length (heap w')"

text \<open>The pending containers resolved in the earlier world are the same in the later one.\<close>

definition resolved_kept :: "World \<Rightarrow> World \<Rightarrow> bool" where
  "resolved_kept w w' \<longleftrightarrow>
     length (heap w) \<le> length (heap w') \<and>
     (\<forall>p < length (heap w). ready (heap w ! p) \<longrightarrow> heap w' ! p = heap w ! p)"

text \<open>
  From \<open>w\<close> to \<open>w'\<close> the world has advanced, and if \<open>w\<close> is as every reachable world is,
  so is \<open>w'\<close> and it has kept what was resolved.
\<close>

definition sound_step :: "World \<Rightarrow> World \<Rightarrow> bool" where
  "sound_step w w' \<longleftrightarrow>
     advance w w' \<and> (world_inv w \<longrightarrow> world_inv w' \<and> resolved_kept w w')"


text \<open>The world \<open>New\<close> has built when it creates its first event.\<close>

definition init_world :: "environment \<Rightarrow> string \<Rightarrow> string \<Rightarrow> World" where
  "init_world env tname logPath =
     (let w = \<lparr>name = tname, cn = [], worldLog = dummy_WorldLog, containers = Map.empty,
                 containerKinds = Map.empty, heap = [], goroutines = [], ticks = 0, acts = []\<rparr>
      in (if logPath \<noteq> []
                 then (case NewWorldLog env logPath w of
                         (Inl e, w') \<Rightarrow>
                           (t_Log [''Failed to create world log:'', e] w')\<lparr>worldLog := dummy_WorldLog\<rparr>
                       | (Inr el, w') \<Rightarrow> w'\<lparr>worldLog := el\<rparr>)
                 else w))"

text \<open>The name \<open>NewContainer\<close> gives a group made from \<open>spec\<close> in the world \<open>w\<close>.\<close>

definition group_name :: "World \<Rightarrow> ContainerSpec \<Rightarrow> string" where
  "group_name w spec = name w @ ''-'' @ spec_kind spec @ ''-''
       @ itoa (kind_count (containerKinds w) (spec_kind spec) + 1)"

section \<open>Examples\<close>

text \<open>
  A world without a log, a specification of three replicas that asks for blocking
  creation, and a provider that fails for the second replica. The callback 7 runs a
  command in a member, as the loop of \<open>Exec\<close> does, with success; every other callback
  calls \<open>LogFile\<close> on its group, and the copy from the member, which is terminated by
  then, fails.
\<close>

definition example_world :: World where
  "example_world =
     \<lparr>name = ''T'', cn = ''net'', worldLog = dummy_WorldLog, containers = Map.empty,
      containerKinds = Map.empty, heap = [], goroutines = [], ticks = 0, acts = []\<rparr>"

definition example_spec :: ContainerSpec where
  "example_spec =
     \<lparr>Image = ''docker.io/library/alpine:latest'', FromDockerfile_Context = [], Started = True,
      Awaited = True, Replicas = 3, Entrypoint = [], Cmd = [''sleep'', ''30''],
      ExposedPorts = [], OnDestroy = Some 7\<rparr>"

definition example_env :: environment where
  "example_env =
     \<lparr>clock = (\<lambda>n. int n * 1000000000), testing_Short = False, network_New = Inr ''net'',
      filepath_Abs = (\<lambda>p. ''/work/'' @ p), NewWorldLog_err = None, os_Create_ok = (\<lambda>f. True),
      provider_create = (\<lambda>r. if req_Name r = ''T-alpine-1-2'' then Failed None ''boom''
                               else Created (length (req_Name r))),
      provider_Logs = (\<lambda>h. Inr ''output''), io_Copy_ok = (\<lambda>h. True),
      provider_Terminate = (\<lambda>h. None), ReadDir_ok = True, Open_ok = (\<lambda>f. True),
      Copy_ok = (\<lambda>f. True),
      onDestroy_code = (\<lambda>cb c w. if cb = 7 then [Op_member (Name c @ '': exec sync'') (Some [])]
                                   else [Op_mustReady c, Op_member (Name c @ '': log file /out'') None])\<rparr>"

text \<open>
  A world with one group of three members: the first resolved with a container, the
  second with an error, the third provisioning still (\<open>waiting_world\<close>) or resolved with
  a container (\<open>resolved_world\<close>).
\<close>

definition example_group :: WorldContainer where
  "example_group =
     \<lparr>Name = ''T-alpine-1'', isReady = False, pending = [0, 1, 2], onDestroy = Some 7\<rparr>"

definition waiting_world :: World where
  "waiting_world =
     example_world
       \<lparr>containers := [''T-alpine-1'' \<mapsto> example_group],
        containerKinds := [''alpine'' \<mapsto> 1],
        heap := [\<lparr>pc_name = ''T-alpine-1-1'', ready = True, container = Some 10, err = None\<rparr>,
                 \<lparr>pc_name = ''T-alpine-1-2'', ready = True, container = None, err = Some ''boom''\<rparr>,
                 \<lparr>pc_name = ''T-alpine-1-3'', ready = False, container = None, err = None\<rparr>]\<rparr>"

definition resolved_world :: World where
  "resolved_world =
     waiting_world
       \<lparr>heap := (heap waiting_world)
          [2 := \<lparr>pc_name = ''T-alpine-1-3'', ready = True, container = Some 12, err = None\<rparr>]\<rparr>"

text \<open>The same world with the other callback for the group.\<close>

definition fatal_world :: World where
  "fatal_world =
     resolved_world\<lparr>containers := [''T-alpine-1'' \<mapsto> example_group\<lparr>onDestroy := Some 8\<rparr>]\<rparr>"

text \<open>
  The world after \<open>NewContainer example_spec\<close> in \<open>example_world\<close> once the goroutine of the
  first replica has run, and the world \<open>New\<close> returns with a log, with one more event.
\<close>

definition first_resolved_world :: World where
  "first_resolved_world =
     createFn_end example_env 0
       (createFn_begin example_env 0 (snd (NewContainer example_spec example_world)))"

definition logged_world :: World where
  "logged_world =
     (case New example_env ''T'' ''logs'' of
        Inr w \<Rightarrow> snd (newEvent example_env ''T-alpine-1: exec true'' w)
      | Inl m \<Rightarrow> example_world)"

text \<open>
  The span in the words of the specification: the last finish time of an event minus the
  first start time of an event.
\<close>

definition finish_times :: "WorldLog \<Rightarrow> int list" where
  "finish_times el =
     concat (map (\<lambda>t. case t of None \<Rightarrow> [] | Some x \<Rightarrow> [x]) (map ev_finishTime (events el)))"

definition claimed_span :: "WorldLog \<Rightarrow> int" where
  "claimed_span el =
     Sub (fold max (finish_times el) (hd (finish_times el)))
         (hd (map ev_startTime (events el)))"

text \<open>
  A whole run with a log and no container: \<open>New\<close>, then \<open>Destroy\<close>. The clock of
  \<open>example_env\<close> advances one second from each reading to the next.
\<close>

definition finished_world :: World where
  "finished_world =
     (case New example_env ''T'' ''logs'' of
        Inr w \<Rightarrow> (case Destroy example_env [] w of Returns w' \<Rightarrow> w' | Blocks \<Rightarrow> w | Panics \<Rightarrow> w)
      | Inl m \<Rightarrow> example_world)"

text \<open>
  A timeline of one second with an event that spans it and was never finished, and an
  event of no duration in the middle.
\<close>

definition whole_event :: Event where
  "whole_event =
     \<lparr>ev_id = 0, description = ''World: Create'', ev_startTime = 0, ev_finishTime = None,
      log = Some ''event_000.log'', log_closed = False\<rparr>"

definition instant_event :: Event where
  "instant_event =
     \<lparr>ev_id = 1, description = ''T-alpine-1: wait'', ev_startTime = 500000000,
      ev_finishTime = Some 500000000, log = Some ''event_001.log'', log_closed = True\<rparr>"

definition gantt_example :: WorldLog where
  "gantt_example =
     \<lparr>enabled = True, combinedLog = [], combinedLogPath = ''/work/logs/log_T_events.log'',
      eventsDir = [], events = [whole_event, instant_event], startTime = 0,
      finishTime = 1000000000, eventCounter = 2\<rparr>"

text \<open>
  A world about to finalise that timeline: its clock reads one second at the next
  reading.
\<close>

definition gantt_world :: World where
  "gantt_world = example_world\<lparr>worldLog := gantt_example\<lparr>finishTime := 0\<rparr>, ticks := 1\<rparr>"

text \<open>
  The file of the event with id \<open>i\<close>, and the position of the first occurrence of an
  element in a list.
\<close>

definition event_file :: "int \<Rightarrow> string" where
  "event_file i = ''event_'' @ fmt03d i @ ''.log''"

fun index_of :: "'a \<Rightarrow> 'a list \<Rightarrow> nat" where
  "index_of x [] = 0"
| "index_of x (y # ys) = (if x = y then 0 else Suc (index_of x ys))"

text \<open>
  A run with a log and 1001 events: \<open>New\<close> creates event 0, the test creates the events 1
  to 999 (as \<open>Exec\<close>, \<open>Wait\<close> and \<open>LogFile\<close> do for each member), and \<open>Destroy\<close> creates
  event 1000 and finalises the timeline.
\<close>

fun create_events :: "environment \<Rightarrow> nat \<Rightarrow> World \<Rightarrow> World" where
  "create_events env 0 w = w"
| "create_events env (Suc n) w = snd (newEvent env ''T-alpine-1: exec true'' (create_events env n w))"

definition overflow_world :: World where
  "overflow_world =
     (case New example_env ''T'' ''logs'' of
        Inr w \<Rightarrow> (case Destroy example_env [] (create_events example_env 999 w) of
                    Returns w' \<Rightarrow> w'
                  | Blocks \<Rightarrow> w
                  | Panics \<Rightarrow> w)
      | Inl m \<Rightarrow> example_world)"

text \<open>
  A timeline whose events have their ids in order and each have their file in the
  events directory.
\<close>

definition files_ok :: "World \<Rightarrow> bool" where
  "files_ok w \<longleftrightarrow>
     enabled (worldLog w) \<and> ids_ok (worldLog w) \<and>
     map log (events (worldLog w))
       = map (\<lambda>i. Some (event_file (int i))) [0..<length (events (worldLog w))] \<and>
     (\<forall>i < length (events (worldLog w)).
        event_file (int i) \<in> set (map fst (eventsDir (worldLog w))))"

section \<open>Properties\<close>

lemma Index_takeWhile:
  "Index s c = (if c \<in> set s then int (length (takeWhile (\<lambda>x. x \<noteq> c) s)) else - 1)"
  by (induction s) (auto simp: Let_def)

lemma takeWhile_neq_all: "c \<notin> set s \<Longrightarrow> takeWhile (\<lambda>x. x \<noteq> c) s = s"
  by (induction s) auto

lemma take_Index:
  "(let j = Index s c in if j \<ge> 0 then take (nat j) s else s) = takeWhile (\<lambda>x. x \<noteq> c) s"
proof (cases "c \<in> set s")
  case True
  then show ?thesis
    by (simp add: Index_takeWhile takeWhile_eq_take[symmetric])
next
  case False
  then show ?thesis
    by (simp add: Index_takeWhile takeWhile_neq_all)
qed

lemma length_takeWhile_neq:
  "c \<in> set s \<Longrightarrow> length (takeWhile (\<lambda>x. x \<noteq> c) s) < length s"
  by (induction s) auto

lemma drop_LastIndex:
  "(let i = LastIndex s c in if i \<ge> 0 then drop (nat (i + 1)) s else s)
     = rev (takeWhile (\<lambda>x. x \<noteq> c) (rev s))"
proof (cases "c \<in> set s")
  case True
  define t where "t = length (takeWhile (\<lambda>x. x \<noteq> c) (rev s))"
  have tl: "t < length s"
    using True length_takeWhile_neq[of c "rev s"] unfolding t_def by simp
  have i: "LastIndex s c = int (length s) - 1 - int t"
    using True by (simp add: LastIndex_def Index_takeWhile t_def)
  have "rev (takeWhile (\<lambda>x. x \<noteq> c) (rev s)) = rev (take t (rev s))"
    by (simp add: t_def takeWhile_eq_take[symmetric])
  also have "\<dots> = drop (length s - t) s"
    by (simp add: take_rev)
  finally have r: "rev (takeWhile (\<lambda>x. x \<noteq> c) (rev s)) = drop (length s - t) s" .
  have n: "nat (int (length s) - int t) = length s - t"
    using tl by linarith
  show ?thesis
    using tl by (simp add: i r n Let_def)
next
  case False
  then show ?thesis
    by (simp add: LastIndex_def Index_takeWhile takeWhile_neq_all)
qed

lemma basename_spec: "basename s = strip_tag (last_segment s)"
proof -
  have "basename s = (let s1 = (let i = LastIndex s CHR ''/'' in if i \<ge> 0 then drop (nat (i + 1)) s else s)
                      in (let j = Index s1 CHR '':'' in if j \<ge> 0 then take (nat j) s1 else s1))"
    by (simp add: basename_def Let_def)
  also have "\<dots> = strip_tag (last_segment s)"
    unfolding drop_LastIndex take_Index by (simp add: strip_tag_def last_segment_def)
  finally show ?thesis .
qed

lemma digit_cases:
  "0 \<le> d \<Longrightarrow> d < 10 \<Longrightarrow>
     d = 0 \<or> d = 1 \<or> d = 2 \<or> d = 3 \<or> d = 4 \<or> d = 5 \<or> d = 6 \<or> d = 7 \<or> d = 8 \<or> d = (9 :: int)"
  by arith

lemma digit_val_digit_char: "0 \<le> d \<Longrightarrow> d < 10 \<Longrightarrow> digit_val (digit_char d) = d"
  using digit_cases[of d] by (auto simp: digit_val_def digit_char_def)

lemma digit_char_not_minus: "0 \<le> d \<Longrightarrow> d < 10 \<Longrightarrow> digit_char d \<noteq> CHR ''-''"
  using digit_cases[of d] by (auto simp: digit_char_def)

lemma undigits_snoc: "undigits (s @ [c]) = undigits s * 10 + digit_val c"
  by (simp add: undigits_def)

lemma undigits_digits10: "0 \<le> n \<Longrightarrow> undigits (digits10 n) = n"
proof (induction n rule: digits10.induct)
  case (1 n)
  show ?case
  proof (cases "n < 10")
    case True
    with 1 show ?thesis
      by (subst digits10.simps) (simp add: undigits_def digit_val_digit_char)
  next
    case False
    with 1 have "undigits (digits10 (n div 10)) = n div 10" by simp
    with False 1(2) show ?thesis
      by (subst digits10.simps) (simp add: undigits_snoc digit_val_digit_char)
  qed
qed

lemma hd_digits10: "0 \<le> n \<Longrightarrow> digits10 n \<noteq> [] \<and> hd (digits10 n) \<noteq> CHR ''-''"
proof (induction n rule: digits10.induct)
  case (1 n)
  show ?case
  proof (cases "n < 10")
    case True
    with 1 show ?thesis
      by (subst (1 2) digits10.simps) (simp add: digit_char_not_minus)
  next
    case False
    with 1 have "digits10 (n div 10) \<noteq> [] \<and> hd (digits10 (n div 10)) \<noteq> CHR ''-''" by simp
    with False show ?thesis
      by (subst (1 2) digits10.simps) simp
  qed
qed

lemma itoa_inj: "itoa a = itoa b \<Longrightarrow> a = b"
proof -
  assume eq: "itoa a = itoa b"
  have pos: "\<And>v. 0 \<le> v \<Longrightarrow> hd (itoa v) \<noteq> CHR ''-''"
    using hd_digits10 by (simp add: itoa_def)
  have neg: "\<And>v. v < 0 \<Longrightarrow> hd (itoa v) = CHR ''-''"
    by (simp add: itoa_def)
  consider "a < 0" "b < 0" | "0 \<le> a" "0 \<le> b" | "a < 0" "0 \<le> b" | "0 \<le> a" "b < 0"
    by linarith
  then show "a = b"
  proof cases
    case 1
    with eq have "digits10 (- a) = digits10 (- b)" by (simp add: itoa_def)
    then have "undigits (digits10 (- a)) = undigits (digits10 (- b))" by simp
    with 1 show ?thesis by (simp add: undigits_digits10)
  next
    case 2
    with eq have "undigits (digits10 a) = undigits (digits10 b)" by (simp add: itoa_def)
    with 2 show ?thesis by (simp add: undigits_digits10)
  next
    case 3
    with eq pos[of b] neg[of a] show ?thesis by simp
  next
    case 4
    with eq pos[of a] neg[of b] show ?thesis by simp
  qed
qed

lemma upt_add_Suc: "[n..<n + Suc k] = n # [Suc n..<Suc n + k]"
proof -
  have "[n..<n + Suc k] = n # [Suc n..<n + Suc k]"
    by (rule upt_conv_Cons) simp
  then show ?thesis by simp
qed

lemma spawn_replicas_eq:
  "spawn_replicas spec kind nm replicas is pend w =
     (pend @ [length (heap w) ..< length (heap w) + length is],
      w\<lparr>heap := heap w @ map (new_pc nm replicas) is,
        goroutines := goroutines w @
          map (\<lambda>(i, pc). new_goroutine spec kind nm replicas (cn w) i pc)
            (zip is [length (heap w) ..< length (heap w) + length is])\<rparr>)"
proof (induction "is" arbitrary: pend w)
  case Nil
  then show ?case by simp
next
  case (Cons i "is")
  have u: "[length (heap w) ..< length (heap w) + length (i # is)]
             = length (heap w) # [Suc (length (heap w)) ..< Suc (length (heap w)) + length is]"
    using upt_add_Suc[of "length (heap w)" "length is"] by simp
  show ?case
    unfolding u
    by (simp add: Cons.IH Let_def new_pc_def new_goroutine_def replicaName_def replica_aliases_def)
qed

lemma kind_eq: 
  "(let kind = basename (Image spec);
        kind = (if kind = [] then basename (FromDockerfile_Context spec) else kind);
        kind = (if kind = [] then ''container'' else kind) in f kind) = f (spec_kind spec)"
  by (simp add: Let_def spec_kind_def basename_spec)

lemma NewContainer_eq:
  "NewContainer spec w =
     (let nm = group_name w spec;
          replicas = max (Replicas spec) 1;
          n = nat replicas;
          pend = [length (heap w) ..< length (heap w) + n];
          wc = \<lparr>Name = nm, isReady = False, pending = pend, onDestroy = OnDestroy spec\<rparr>
      in (wc,
          w\<lparr>containerKinds := (containerKinds w)(spec_kind spec \<mapsto> kind_count (containerKinds w) (spec_kind spec) + 1),
            heap := heap w @ map (new_pc nm replicas) [0..<n],
            goroutines := goroutines w @
              map (\<lambda>(i, pc). new_goroutine spec (spec_kind spec) nm replicas (cn w) i pc) (zip [0..<n] pend),
            containers := (containers w)(nm \<mapsto> wc)\<rparr>))"
  unfolding NewContainer_def kind_eq
  by (simp add: Let_def spawn_replicas_eq group_name_def kind_count_def)

lemma grows_refl: "grows el el"
  by (simp add: grows_def)

lemma grows_trans: "grows a b \<Longrightarrow> grows b c \<Longrightarrow> grows a c"
  by (auto simp: grows_def)

lemma same_state_refl: "same_state w w"
  by (simp add: same_state_def grows_refl)

lemma same_state_trans: "same_state a b \<Longrightarrow> same_state b c \<Longrightarrow> same_state a c"
  by (auto simp: same_state_def intro: grows_trans)

lemma event_lines_Nil: "event_lines []"
  by (simp add: event_lines_def)

lemma event_lines_single: "event_lines [T_Log [''Event '' @ m]]"
  by (simp add: event_lines_def)

lemma event_lines_append: "event_lines as \<Longrightarrow> event_lines bs \<Longrightarrow> event_lines (as @ bs)"
  by (auto simp: event_lines_def)

lemma map_ev_id_update:
  assumes that: "ev_id e = ev_id (xs ! p)"
  shows "map ev_id (xs[p := e]) = map ev_id xs"
proof (cases "p < length xs")
  case True
  then show ?thesis
    by (simp add: map_update list_update_same_conv that)
next
  case False
  then have "length xs \<le> p" by simp
  then show ?thesis by (simp add: list_update_beyond)
qed

lemma ids_ok_update:
  "ids_ok el \<Longrightarrow> ev_id e = ev_id (events el ! p) \<Longrightarrow> ids_ok (el\<lparr>events := (events el)[p := e]\<rparr>)"
  by (simp add: ids_ok_def map_ev_id_update)

lemma ids_ok_locked: "ids_ok el \<Longrightarrow> ids_ok (snd (newEvent_locked now el))"
  by (simp add: ids_ok_def newEvent_locked_def Let_def)

lemma newEvent_locked_fst: "fst (newEvent_locked now el) = length (events el)"
  by (simp add: newEvent_locked_def Let_def)

lemma newEvent_locked_events:
  "events (snd (newEvent_locked now el)) =
     events el @ [\<lparr>ev_id = eventCounter el, description = [], ev_startTime = now,
                   ev_finishTime = None, log = None, log_closed = False\<rparr>]"
  by (simp add: newEvent_locked_def Let_def)

lemma newEvent_disabled: "\<not> enabled (worldLog w) \<Longrightarrow> newEvent env d w = (None, w)"
  by (simp add: newEvent_def)

lemma newEvent_frame:
  assumes "newEvent env d w = (ev, w')"
  shows "same_state w w'"
    and "\<exists>as. acts w' = acts w @ as \<and> event_lines as"
    and "\<And>p. ev = Some p \<Longrightarrow> p < length (events (worldLog w'))"
proof -
  show "same_state w w'"
    using assms
    by (auto simp: newEvent_def same_state_def grows_def Let_def time_Now_def t_Log_def act_def
        newEvent_locked_def ids_ok_def map_ev_id_update split: if_splits prod.splits)
  show "\<exists>as. acts w' = acts w @ as \<and> event_lines as"
    using assms
    by (auto simp: newEvent_def Let_def time_Now_def t_Log_def act_def newEvent_locked_def
        event_lines_def split: if_splits prod.splits)
  show "\<And>p. ev = Some p \<Longrightarrow> p < length (events (worldLog w'))"
    using assms
    by (auto simp: newEvent_def Let_def time_Now_def t_Log_def act_def newEvent_locked_def
        split: if_splits prod.splits)
qed

lemma Event_finish_frame:
  shows "same_state w (Event_finish env ev w)"
    and "\<exists>as. acts (Event_finish env ev w) = acts w @ as \<and> event_lines as"
proof -
  show "same_state w (Event_finish env ev w)"
    by (cases ev)
      (auto simp: Event_finish_def same_state_def grows_def Let_def time_Now_def t_Log_def act_def
        ids_ok_def map_ev_id_update split: prod.splits)
  show "\<exists>as. acts (Event_finish env ev w) = acts w @ as \<and> event_lines as"
    by (cases ev)
      (auto simp: Event_finish_def Let_def time_Now_def t_Log_def act_def event_lines_def
        split: prod.splits)
qed

lemma effect_refl: "effect w w []"
  by (simp add: effect_def same_state_refl)

lemma effect_trans: "effect a b as \<Longrightarrow> effect b c bs \<Longrightarrow> effect a c (as @ bs)"
  by (auto simp: effect_def intro: same_state_trans)

lemma effect_act: "effect w (act a w) [a]"
  by (simp add: effect_def act_def same_state_def grows_refl)

lemma effect_t_Log: "effect w (t_Log ops w) [T_Log ops]"
  by (simp add: t_Log_def effect_act)

lemma effect_eventsDir: "effect w (w\<lparr>worldLog := (worldLog w)\<lparr>eventsDir := d\<rparr>\<rparr>) []"
  by (simp add: effect_def same_state_def grows_def ids_ok_def)

lemma effect_newEvent:
  "newEvent env d w = (ev, w') \<Longrightarrow> \<exists>as. effect w w' as \<and> event_lines as"
  using newEvent_frame(1,2)[of env d w ev w'] by (auto simp: effect_def)

lemma effect_Event_finish: "\<exists>as. effect w (Event_finish env ev w) as \<and> event_lines as"
  using Event_finish_frame[where w = w and env = env and ev = ev] by (auto simp: effect_def)

lemma provisionings_append: "provisionings (as @ bs) = provisionings as @ provisionings bs"
  by (induction as rule: provisionings.induct) auto

lemma event_lines_provisionings: "event_lines as \<Longrightarrow> provisionings as = []"
  by (induction as rule: provisionings.induct) (auto simp: event_lines_def)

lemma event_lines_teardown: "event_lines as \<Longrightarrow> filter teardown_action as = []"
  by (induction as) (auto simp: event_lines_def)

lemma td_refl: "teardown_effect w w []"
  unfolding teardown_effect_def using effect_refl[of w] by force

lemma td_trans:
  "teardown_effect a b X \<Longrightarrow> teardown_effect b c Y \<Longrightarrow> teardown_effect a c (X @ Y)"
  unfolding teardown_effect_def
  by (metis effect_trans provisionings_append append_Nil filter_append)

lemma td_quiet: "effect w w' as \<Longrightarrow> event_lines as \<Longrightarrow> teardown_effect w w' []"
  unfolding teardown_effect_def
  using event_lines_provisionings event_lines_teardown by blast

lemma td_newEvent: "newEvent env d w = (ev, w') \<Longrightarrow> teardown_effect w w' []"
  using effect_newEvent td_quiet by blast

lemma td_Event_finish: "teardown_effect w (Event_finish env ev w) []"
  using effect_Event_finish td_quiet by blast

lemma td_act: "provisionings [a] = [] \<Longrightarrow> teardown_effect w (act a w) (filter teardown_action [a])"
  unfolding teardown_effect_def using effect_act by blast

lemma td_t_Log: "teardown_effect w (t_Log ops w) (filter teardown_action [T_Log ops])"
  unfolding t_Log_def by (rule td_act) simp

lemma td_eventsDir: "teardown_effect w (w\<lparr>worldLog := (worldLog w)\<lparr>eventsDir := d\<rparr>\<rparr>) []"
  unfolding teardown_effect_def using effect_eventsDir by force

lemma td_heap: "teardown_effect w w' X \<Longrightarrow> heap w' = heap w"
  by (auto simp: teardown_effect_def effect_def same_state_def)

lemma td_containers: "teardown_effect w w' X \<Longrightarrow> containers w' = containers w"
  by (auto simp: teardown_effect_def effect_def same_state_def)

lemma td_logOneInternal:
  assumes "logOneInternal env nm c w = (e, w')"
  shows "teardown_effect w w' [Provider_Logs c]"
proof -
  obtain ev w1 where ne: "newEvent env (nm @ '': logs'') w = (ev, w1)"
    by (cases "newEvent env (nm @ '': logs'') w")
  have t1: "teardown_effect w w1 []"
    using ne by (rule td_newEvent)
  define w2 where "w2 = act (Provider_Logs c) w1"
  have t2: "teardown_effect w1 w2 [Provider_Logs c]"
    unfolding w2_def using td_act[of "Provider_Logs c" w1] by simp
  have t12: "teardown_effect w w2 [Provider_Logs c]"
    using td_trans[OF t1 t2] by simp
  have fin: "\<And>v. teardown_effect w2 v [] \<Longrightarrow> teardown_effect w v [Provider_Logs c]"
    using td_trans[OF t12] by simp
  have cases: "w' = w2 \<or> w' = Event_finish env ev w2 \<or>
      (\<exists>d. w' = Event_finish env ev (w2\<lparr>worldLog := (worldLog w2)\<lparr>eventsDir := d\<rparr>\<rparr>))"
    using assms unfolding logOneInternal_def ne w2_def[symmetric]
    by (auto simp: Let_def w2_def[symmetric] split: sum.splits option.splits if_splits)
  then show ?thesis
  proof (elim disjE exE)
    assume "w' = w2"
    then show ?thesis using t12 by simp
  next
    assume "w' = Event_finish env ev w2"
    then show ?thesis using fin[OF td_Event_finish] by simp
  next
    fix d
    assume w': "w' = Event_finish env ev (w2\<lparr>worldLog := (worldLog w2)\<lparr>eventsDir := d\<rparr>\<rparr>)"
    have "teardown_effect w2 w' []"
      unfolding w' using td_trans[OF td_eventsDir td_Event_finish] by simp
    then show ?thesis by (rule fin)
  qed
qed

lemma td_Destroy_pc:
  assumes "ready (heap w ! p)"
    and "err (heap w ! p) = None \<longrightarrow> container (heap w ! p) \<noteq> None"
  shows "\<exists>w'. Destroy_pc env p w = Returns w' \<and> teardown_effect w w' (pc_teardown (heap w ! p))"
proof (cases "err (heap w ! p)")
  case (Some e)
  then show ?thesis
    using assms td_t_Log[of w "[''Container '', pc_name (heap w ! p), '' failed to create: '', e]"]
    by (simp add: Destroy_pc_def pc_teardown_def)
next
  case None
  with assms obtain c where c: "container (heap w ! p) = Some c" by auto
  obtain e1 w1 where l: "logOneInternal env (pc_name (heap w ! p)) c w = (e1, w1)"
    by (cases "logOneInternal env (pc_name (heap w ! p)) c w")
  define w2 where "w2 = (case e1 of None \<Rightarrow> w1
      | Some m \<Rightarrow> t_Log [''Failed to collect logs for container '', pc_name (heap w ! p), '': '', m] w1)"
  define w3 where "w3 = act (Provider_Terminate c) w2"
  define w4 where "w4 = (case provider_Terminate env c of None \<Rightarrow> w3
      | Some m \<Rightarrow> t_Log [''Failed to terminate container '', pc_name (heap w ! p), '': '', m] w3)"
  have t1: "teardown_effect w w1 [Provider_Logs c]"
    using l by (rule td_logOneInternal)
  have t2: "teardown_effect w1 w2 []"
  proof (cases e1)
    case None
    then show ?thesis by (simp add: w2_def td_refl)
  next
    case (Some m)
    then show ?thesis
      using td_t_Log[of w1 "[''Failed to collect logs for container '', pc_name (heap w ! p), '': '', m]"]
      by (simp add: w2_def)
  qed
  have t3: "teardown_effect w2 w3 [Provider_Terminate c]"
    unfolding w3_def using td_act[of "Provider_Terminate c" w2] by simp
  have t4: "teardown_effect w3 w4 []"
  proof (cases "provider_Terminate env c")
    case None
    then show ?thesis by (simp add: w4_def td_refl)
  next
    case (Some m)
    then show ?thesis
      using td_t_Log[of w3 "[''Failed to terminate container '', pc_name (heap w ! p), '': '', m]"]
      by (simp add: w4_def)
  qed
  have "teardown_effect w w4 [Provider_Logs c, Provider_Terminate c]"
    using td_trans[OF td_trans[OF td_trans[OF t1 t2] t3] t4] by simp
  moreover have "Destroy_pc env p w = Returns w4"
    unfolding w4_def w3_def w2_def
    using assms(1) None c l
    by (simp add: Destroy_pc_def Let_def)
  ultimately show ?thesis
    using None c by (simp add: pc_teardown_def)
qed

lemma td_Destroy_pending:
  assumes "\<forall>p \<in> set ps. ready (heap w ! p) \<and> (err (heap w ! p) = None \<longrightarrow> container (heap w ! p) \<noteq> None)"
  shows "\<exists>w'. Destroy_pending env ps w = Returns w' \<and>
           teardown_effect w w' (concat (map (\<lambda>p. pc_teardown (heap w ! p)) ps))"
  using assms
proof (induction ps arbitrary: w)
  case Nil
  then show ?case by (simp add: td_refl)
next
  case (Cons p ps)
  then obtain w1 where 1: "Destroy_pc env p w = Returns w1"
    and t1: "teardown_effect w w1 (pc_teardown (heap w ! p))"
    using td_Destroy_pc[of w p env] by auto
  have h: "heap w1 = heap w" using t1 by (rule td_heap)
  from Cons.prems have "\<forall>q \<in> set ps. ready (heap w1 ! q) \<and> (err (heap w1 ! q) = None \<longrightarrow> container (heap w1 ! q) \<noteq> None)"
    by (simp add: h)
  from Cons.IH[OF this] obtain w2 where 2: "Destroy_pending env ps w1 = Returns w2"
    and t2: "teardown_effect w1 w2 (concat (map (\<lambda>p. pc_teardown (heap w ! p)) ps))"
    by (auto simp: h)
  show ?case
    using 1 2 td_trans[OF t1 t2] by simp
qed




lemma printGantt_frame:
  "enabled (printGantt el) = enabled el" "startTime (printGantt el) = startTime el"
  "events (printGantt el) = events el" "eventCounter (printGantt el) = eventCounter el"
  "finishTime (printGantt el) = finishTime el" "eventsDir (printGantt el) = eventsDir el"
  "combinedLogPath (printGantt el) = combinedLogPath el"
  by (simp_all add: printGantt_def)

lemma WorldLog_finish_cases:
  "\<exists>el. grows (worldLog w) el \<and>
     (snd (WorldLog_finish env w) = w \<or>
      snd (WorldLog_finish env w) = w\<lparr>ticks := Suc (ticks w), worldLog := el\<rparr> \<or>
      snd (WorldLog_finish env w) =
        t_Log [''World destroyed, event logs written to '', combinedLogPath (worldLog w)]
          (w\<lparr>ticks := Suc (ticks w), worldLog := el\<rparr>))"
proof (cases "enabled (worldLog w)")
  case False
  then show ?thesis
    using grows_refl by (auto simp: WorldLog_finish_def)
next
  case True
  define el1 where "el1 = (printGantt ((worldLog w)\<lparr>finishTime := clock env (ticks w)\<rparr>))
      \<lparr>combinedLog := combinedLog (printGantt ((worldLog w)\<lparr>finishTime := clock env (ticks w)\<rparr>))
          @ nl @ nl @ ''Event Logs:'' @ nl\<rparr>"
  have g1: "\<And>out. grows (worldLog w) (el1\<lparr>combinedLog := out\<rparr>)"
    by (simp add: grows_def el1_def printGantt_frame ids_ok_def)
  have g0: "grows (worldLog w) el1"
    using g1[of "combinedLog el1"] by simp
  have p: "combinedLogPath el1 = combinedLogPath (worldLog w)"
    by (simp add: el1_def printGantt_frame)
  show ?thesis
  proof (cases "ReadDir_ok env")
    case False
    with True have "snd (WorldLog_finish env w) = w\<lparr>ticks := Suc (ticks w), worldLog := el1\<rparr>"
      by (simp add: WorldLog_finish_def time_Now_def Let_def el1_def)
    with g0 show ?thesis by blast
  next
    case rd: True
    obtain e out where c: "concat_logs env (eventsDir el1) (ReadDir (eventsDir el1)) (combinedLog el1) = (e, out)"
      by (cases "concat_logs env (eventsDir el1) (ReadDir (eventsDir el1)) (combinedLog el1)")
    have "snd (WorldLog_finish env w) =
        (case e of Some m \<Rightarrow> w\<lparr>ticks := Suc (ticks w), worldLog := el1\<lparr>combinedLog := out\<rparr>\<rparr>
         | None \<Rightarrow> t_Log [''World destroyed, event logs written to '', combinedLogPath el1]
              (w\<lparr>ticks := Suc (ticks w), worldLog := el1\<lparr>combinedLog := out\<rparr>\<rparr>))"
      using True rd c unfolding el1_def
      by (simp add: WorldLog_finish_def time_Now_def Let_def split: option.splits)
    with g1[of out] p show ?thesis
      by (cases e) auto
  qed
qed

lemma effect_tick_log:
  "grows (worldLog w) el \<Longrightarrow> effect w (w\<lparr>ticks := t, worldLog := el\<rparr>) []"
  by (simp add: effect_def same_state_def)

lemma td_WorldLog_finish: "teardown_effect w (snd (WorldLog_finish env w)) []"
proof -
  from WorldLog_finish_cases[of w env] obtain el where g: "grows (worldLog w) el"
    and c: "snd (WorldLog_finish env w) = w \<or>
      snd (WorldLog_finish env w) = w\<lparr>ticks := Suc (ticks w), worldLog := el\<rparr> \<or>
      snd (WorldLog_finish env w) =
        t_Log [''World destroyed, event logs written to '', combinedLogPath (worldLog w)]
          (w\<lparr>ticks := Suc (ticks w), worldLog := el\<rparr>)"
    by blast
  have t: "teardown_effect w (w\<lparr>ticks := Suc (ticks w), worldLog := el\<rparr>) []"
    unfolding teardown_effect_def using effect_tick_log[OF g] by force
  from c show ?thesis
  proof (elim disjE)
    assume "snd (WorldLog_finish env w) = w"
    then show ?thesis by (simp add: td_refl)
  next
    assume "snd (WorldLog_finish env w) = w\<lparr>ticks := Suc (ticks w), worldLog := el\<rparr>"
    then show ?thesis using t by simp
  next
    assume a: "snd (WorldLog_finish env w) =
        t_Log [''World destroyed, event logs written to '', combinedLogPath (worldLog w)]
          (w\<lparr>ticks := Suc (ticks w), worldLog := el\<rparr>)"
    show ?thesis
      unfolding a
      using td_trans[OF t td_t_Log[of "w\<lparr>ticks := Suc (ticks w), worldLog := el\<rparr>"
            "[''World destroyed, event logs written to '', combinedLogPath (worldLog w)]"]]
      by simp
  qed
qed

lemma td_acts:
  "teardown_effect w w' X \<Longrightarrow>
     filter teardown_action (acts w') = filter teardown_action (acts w) @ X \<and>
     provisionings (acts w') = provisionings (acts w)"
  by (auto simp: teardown_effect_def effect_def provisionings_append)

lemma td_same_state: "teardown_effect w w' X \<Longrightarrow> same_state w w'"
  by (auto simp: teardown_effect_def effect_def)

lemma waitReady_loop_prefix:
  assumes "\<forall>p \<in> set pre. ready (h ! p) \<and> err (h ! p) = None"
    and "i + length pre \<le> length cs"
  shows "waitReady_loop h (pre @ rest) i cs =
           waitReady_loop h rest (i + length pre)
             (take i cs @ map (\<lambda>p. container (h ! p)) pre @ drop (i + length pre) cs)"
  using assms
proof (induction pre arbitrary: i cs)
  case Nil
  then show ?case by simp
next
  case (Cons p pre)
  have i: "i < length cs" using Cons.prems(2) by simp
  have u: "cs[i := container (h ! p)] = take i cs @ container (h ! p) # drop (Suc i) cs"
    using i by (rule upd_conv_take_nth_drop)
  have "waitReady_loop h ((p # pre) @ rest) i cs =
          waitReady_loop h (pre @ rest) (Suc i) (cs[i := container (h ! p)])"
    using Cons.prems(1) by simp
  also have "\<dots> = waitReady_loop h rest (Suc i + length pre)
       (take (Suc i) (cs[i := container (h ! p)]) @ map (\<lambda>p. container (h ! p)) pre
          @ drop (Suc i + length pre) (cs[i := container (h ! p)]))"
    using Cons.prems by (intro Cons.IH) simp_all
  also have "take (Suc i) (cs[i := container (h ! p)]) = take i cs @ [container (h ! p)]"
    using i by (simp add: u)
  also have "drop (Suc i + length pre) (cs[i := container (h ! p)]) = drop (Suc i + length pre) cs"
    by simp
  finally show ?case by simp
qed

lemma waitReady_split:
  assumes "k \<le> length (pending wc)"
    and "\<forall>j<k. ready (heap w ! (pending wc ! j)) \<and> err (heap w ! (pending wc ! j)) = None"
  shows "waitReady wc w =
           waitReady_loop (heap w) (drop k (pending wc)) k
             (map (\<lambda>p. container (heap w ! p)) (take k (pending wc))
                @ replicate (length (pending wc) - k) None)"
proof -
  have a: "\<forall>p \<in> set (take k (pending wc)). ready (heap w ! p) \<and> err (heap w ! p) = None"
    using assms by (auto simp: in_set_conv_nth)
  have l: "length (take k (pending wc)) = k"
    using assms(1) by simp
  have "waitReady wc w =
          waitReady_loop (heap w) (take k (pending wc) @ drop k (pending wc)) 0
            (replicate (length (pending wc)) None)"
    by (simp add: waitReady_def)
  also have "\<dots> = waitReady_loop (heap w) (drop k (pending wc)) (0 + length (take k (pending wc)))
       (take 0 (replicate (length (pending wc)) None)
          @ map (\<lambda>p. container (heap w ! p)) (take k (pending wc))
          @ drop (0 + length (take k (pending wc))) (replicate (length (pending wc)) None))"
    using a by (intro waitReady_loop_prefix) simp_all
  finally show ?thesis
    using assms(1) by (simp add: l)
qed

lemma waitReady_heap: "heap w' = heap w \<Longrightarrow> waitReady wc w' = waitReady wc w"
  by (simp add: waitReady_def)

lemma mustReady_cases:
  "\<exists>w2 w3 as2 as3.
       effect w w2 as2 \<and> provisionings as2 = [] \<and>
       T_Fatalf (''Container '' @ Name wc @ '' failed to create: '' @ e) \<in> set as2 \<and>
       effect w w3 as3 \<and> event_lines as3 \<and>
       (waitReady wc w = Blocks \<longrightarrow> mustReady env wc w = Blocks) \<and>
       (waitReady wc w = Panics \<longrightarrow> mustReady env wc w = Panics) \<and>
       (waitReady wc w = Returns (cs, Some e) \<longrightarrow>
          mustReady env wc w =
            Returns (Inl (''Container '' @ Name wc @ '' failed to create: '' @ e), wc, w2)) \<and>
       (waitReady wc w = Returns (cs, None) \<longrightarrow>
          mustReady env wc w = Returns (Inr cs, wc\<lparr>isReady := True\<rparr>, w3))"
proof -
  define r where "r = (if \<not> isReady wc then newEvent env (Name wc @ '': await'') w else (None, w))"
  obtain ev w1 where r: "r = (ev, w1)" by (cases r)
  have "\<exists>as. effect w w1 as \<and> event_lines as"
  proof (cases "isReady wc")
    case True
    with r have "w1 = w" by (simp add: r_def)
    then show ?thesis using effect_refl[of w] event_lines_Nil by blast
  next
    case False
    with r have "newEvent env (Name wc @ '': await'') w = (ev, w1)" by (simp add: r_def)
    then show ?thesis by (rule effect_newEvent)
  qed
  then obtain as1 where e1: "effect w w1 as1" and l1: "event_lines as1" by blast
  define m where "m = ''Container '' @ Name wc @ '' failed to create: '' @ e"
  define w2 where "w2 = Event_finish env ev (act (T_Fatalf m) w1)"
  define w3 where "w3 = Event_finish env ev w1"
  from effect_Event_finish[of "act (T_Fatalf m) w1" env ev] obtain bs
    where e2: "effect (act (T_Fatalf m) w1) w2 bs" and l2: "event_lines bs"
    unfolding w2_def by blast
  from effect_Event_finish[of w1 env ev] obtain ds
    where e3: "effect w1 w3 ds" and l3: "event_lines ds"
    unfolding w3_def by blast
  have E2: "effect w w2 (as1 @ [T_Fatalf m] @ bs)"
    using effect_trans[OF e1 effect_trans[OF effect_act[of w1 "T_Fatalf m"] e2]] .
  have P2: "provisionings (as1 @ [T_Fatalf m] @ bs) = []"
    using event_lines_provisionings[OF l1] event_lines_provisionings[OF l2]
    by (simp add: provisionings_append)
  have E3: "effect w w3 (as1 @ ds)"
    using effect_trans[OF e1 e3] .
  have L3: "event_lines (as1 @ ds)"
    using event_lines_append[OF l1 l3] .
  have h: "waitReady wc w1 = waitReady wc w"
    using e1 by (intro waitReady_heap) (simp add: effect_def same_state_def)
  have mr: "mustReady env wc w =
      (case waitReady wc w of
         Blocks \<Rightarrow> Blocks
       | Panics \<Rightarrow> Panics
       | Returns (cs, Some e) \<Rightarrow>
           (let m = ''Container '' @ Name wc @ '' failed to create: '' @ e
            in Returns (Inl m, wc, Event_finish env ev (act (T_Fatalf m) w1)))
       | Returns (cs, None) \<Rightarrow> Returns (Inr cs, wc\<lparr>isReady := True\<rparr>, Event_finish env ev w1))"
    using r unfolding r_def mustReady_def by (simp add: h)
  have "(waitReady wc w = Blocks \<longrightarrow> mustReady env wc w = Blocks) \<and>
       (waitReady wc w = Panics \<longrightarrow> mustReady env wc w = Panics) \<and>
       (waitReady wc w = Returns (cs, Some e) \<longrightarrow>
          mustReady env wc w = Returns (Inl m, wc, w2)) \<and>
       (waitReady wc w = Returns (cs, None) \<longrightarrow>
          mustReady env wc w = Returns (Inr cs, wc\<lparr>isReady := True\<rparr>, w3))"
    unfolding mr m_def w2_def w3_def by (simp add: Let_def)
  with E2 P2 E3 L3 show ?thesis
    unfolding m_def by (intro exI[of _ w2] exI[of _ w3] exI[of _ "as1 @ [T_Fatalf m] @ bs"] exI[of _ "as1 @ ds"])
      (simp add: m_def)
qed

lemma mustReady_effect:
  assumes "mustReady env wc w = Returns (r, wc', w')"
  shows "\<exists>as. effect w w' as \<and> provisionings as = []"
proof (cases "waitReady wc w")
  case (Returns x)
  obtain cs eo where x: "x = (cs, eo)" by (cases x)
  show ?thesis
  proof (cases eo)
    case None
    from mustReady_cases[of w wc "[]" env cs] obtain w3 as3 where
      "effect w w3 as3" "event_lines as3"
      "mustReady env wc w = Returns (Inr cs, wc\<lparr>isReady := True\<rparr>, w3)"
      using Returns x None by auto
    with assms event_lines_provisionings show ?thesis by auto
  next
    case (Some e)
    from mustReady_cases[of w wc e env cs] obtain w2 as2 where
      "effect w w2 as2" "provisionings as2 = []"
      "mustReady env wc w = Returns (Inl (''Container '' @ Name wc @ '' failed to create: '' @ e), wc, w2)"
      using Returns x Some by auto
    with assms show ?thesis by auto
  qed
next
  case Blocks
  with mustReady_cases[of w wc "[]" env "[]"] assms show ?thesis by auto
next
  case Panics
  with mustReady_cases[of w wc "[]" env "[]"] assms show ?thesis by auto
qed

lemma advance_refl: "advance w w"
  by (simp add: advance_def grows_refl)

lemma advance_trans: "advance a b \<Longrightarrow> advance b c \<Longrightarrow> advance a c"
  unfolding advance_def
  by (auto intro: grows_trans order_trans)

lemma same_state_advance: "same_state w w' \<Longrightarrow> advance w w'"
  by (simp add: same_state_def advance_def)

lemma kept_refl: "resolved_kept w w"
  by (simp add: resolved_kept_def)

lemma kept_trans: "resolved_kept a b \<Longrightarrow> resolved_kept b c \<Longrightarrow> resolved_kept a c"
proof -
  assume ab: "resolved_kept a b" and bc: "resolved_kept b c"
  have "heap c ! p = heap a ! p" if "p < length (heap a)" "ready (heap a ! p)" for p
  proof -
    have 1: "heap b ! p = heap a ! p" using ab that by (simp add: resolved_kept_def)
    have "p < length (heap b)" using ab that by (simp add: resolved_kept_def)
    then have "heap c ! p = heap b ! p" using bc that 1 by (simp add: resolved_kept_def)
    with 1 show ?thesis by simp
  qed
  moreover have "length (heap a) \<le> length (heap c)"
    using ab bc by (simp add: resolved_kept_def)
  ultimately show "resolved_kept a c" by (simp add: resolved_kept_def)
qed

lemma same_state_kept: "same_state w w' \<Longrightarrow> resolved_kept w w'"
  by (simp add: same_state_def resolved_kept_def)

lemma same_state_inv:
  assumes "same_state w w'" and "provisionings (acts w') = provisionings (acts w)"
    and "world_inv w"
  shows "world_inv w'"
  using assms by (simp add: same_state_def world_inv_def grows_def)

lemma effect_quiet_inv:
  assumes "effect w w' as" and "provisionings as = []" and "world_inv w"
  shows "world_inv w'"
  using assms by (intro same_state_inv[of w w']) (auto simp: effect_def provisionings_append)

lemma newEvent_inv:
  assumes "newEvent env d w = (ev, w')" and "world_inv w"
  shows "world_inv w'" and "same_state w w'"
proof -
  from effect_newEvent[OF assms(1)] obtain as where a: "effect w w' as" "event_lines as" by blast
  show "world_inv w'"
    using effect_quiet_inv[OF a(1) event_lines_provisionings[OF a(2)] assms(2)] .
  show "same_state w w'"
    using a(1) by (simp add: effect_def)
qed

lemma Event_finish_inv:
  assumes "world_inv w"
  shows "world_inv (Event_finish env ev w)"
proof -
  from effect_Event_finish[of w env ev] obtain as where a: "effect w (Event_finish env ev w) as" "event_lines as"
    by blast
  show ?thesis
    using effect_quiet_inv[OF a(1) event_lines_provisionings[OF a(2)] assms] .
qed

lemma td_inv: "teardown_effect w w' X \<Longrightarrow> world_inv w \<Longrightarrow> world_inv w'"
  unfolding teardown_effect_def using effect_quiet_inv by blast

lemma map_g_pc_update:
  "map g_pc (gs[i := (gs ! i)\<lparr>g_progress := x\<rparr>]) = map g_pc gs"
proof (cases "i < length gs")
  case True
  then show ?thesis by (simp add: map_update list_update_same_conv)
next
  case False
  then have "length gs \<le> i" by simp
  then show ?thesis by (simp add: list_update_beyond)
qed

lemma createFn_begin_advance:
  "advance w (createFn_begin env i w)" "resolved_kept w (createFn_begin env i w)"
proof -
  obtain ev w1 where ne: "newEvent env (''World: add '' @ g_kind (goroutines w ! i) @ '' container ''
      @ g_replicaName (goroutines w ! i)) w = (ev, w1)"
    by (cases "newEvent env (''World: add '' @ g_kind (goroutines w ! i) @ '' container ''
      @ g_replicaName (goroutines w ! i)) w")
  have s1: "same_state w w1"
    using newEvent_frame(1)[OF ne] .
  have c: "createFn_begin env i w =
      w1\<lparr>goroutines := (goroutines w1)[i := (goroutines w ! i)\<lparr>g_progress := Running ev\<rparr>]\<rparr>"
    using ne by (simp add: createFn_begin_def)
  have "advance w1 (createFn_begin env i w)"
    unfolding c by (simp add: advance_def grows_refl)
  with same_state_advance[OF s1] show "advance w (createFn_begin env i w)"
    by (rule advance_trans)
  have "resolved_kept w1 (createFn_begin env i w)"
    unfolding c by (simp add: resolved_kept_def)
  with same_state_kept[OF s1] show "resolved_kept w (createFn_begin env i w)"
    by (rule kept_trans)
qed

lemma createFn_begin_inv:
  assumes "world_inv w"
  shows "world_inv (createFn_begin env i w)"
proof -
  obtain ev w1 where ne: "newEvent env (''World: add '' @ g_kind (goroutines w ! i) @ '' container ''
      @ g_replicaName (goroutines w ! i)) w = (ev, w1)"
    by (cases "newEvent env (''World: add '' @ g_kind (goroutines w ! i) @ '' container ''
      @ g_replicaName (goroutines w ! i)) w")
  have i1: "world_inv w1" and s1: "same_state w w1"
    using newEvent_inv[OF ne assms] by simp_all
  have g: "goroutines w1 = goroutines w"
    using s1 by (simp add: same_state_def)
  have c: "createFn_begin env i w =
      w1\<lparr>goroutines := (goroutines w1)[i := (goroutines w1 ! i)\<lparr>g_progress := Running ev\<rparr>]\<rparr>"
    using ne by (simp add: createFn_begin_def g)
  show "world_inv (createFn_begin env i w)"
    unfolding c using i1 by (simp add: world_inv_def map_g_pc_update)
qed

lemma nth_not_in_rest:
  assumes "distinct xs" and "i < length xs"
  shows "xs ! i \<notin> set (take i xs @ drop (Suc i) xs)"
proof -
  have "xs = take i xs @ xs ! i # drop (Suc i) xs"
    using assms(2) by (rule id_take_nth_drop)
  then have "distinct (take i xs @ xs ! i # drop (Suc i) xs)"
    using assms(1) by simp
  then show ?thesis by auto
qed

lemma distinct_remove_nth:
  assumes "distinct xs"
  shows "distinct (take i xs @ drop (Suc i) xs)"
proof -
  have "distinct (take i xs @ drop i xs)"
    using assms by simp
  then have "distinct (take i xs)" and dj: "set (take i xs) \<inter> set (drop i xs) = {}"
    by (simp_all only: distinct_append)
  moreover have "distinct (drop (Suc i) xs)"
    using assms by (rule distinct_drop)
  moreover have "set (drop (Suc i) xs) \<subseteq> set (drop i xs)"
    by (rule set_drop_subset_set_drop) simp
  ultimately show ?thesis
    by (simp only: distinct_append) blast
qed

lemma count_list_append: "count_list (xs @ ys) x = count_list xs x + count_list ys x"
  by (induction xs) auto

lemma createFn_end_advance: "advance w (createFn_end env i w)"
proof -
  define g where "g = goroutines w ! i"
  define ev where "ev = (case g_progress g of Running ev \<Rightarrow> ev | Spawned \<Rightarrow> None)"
  obtain c e where ce: "(case provider_create env (g_containerRequest g) of
                      Created h \<Rightarrow> (Some h, None)
                    | Failed c' m \<Rightarrow> (c', Some m)) = (c, e)"
    by (cases "(case provider_create env (g_containerRequest g) of
                      Created h \<Rightarrow> (Some h, None)
                    | Failed c' m \<Rightarrow> (c', Some m))")
  define w1 where "w1 = act (Provider_Cleanup c) (act (Provider_Create (g_pc g) (g_containerRequest g)) w)"
  define w2 where "w2 = w1\<lparr>heap := (heap w1)[g_pc g := (heap w1 ! g_pc g)\<lparr>container := c, err := e, ready := True\<rparr>]\<rparr>"
  define w3 where "w3 = Event_finish env ev w2"
  have r: "createFn_end env i w = w3\<lparr>goroutines := take i (goroutines w3) @ drop (Suc i) (goroutines w3)\<rparr>"
    unfolding w3_def w2_def w1_def ev_def g_def
    using ce[unfolded g_def] by (simp add: createFn_end_def Let_def)
  have "advance w w2"
    by (simp add: advance_def w2_def w1_def act_def grows_refl)
  moreover have "advance w2 w3"
    unfolding w3_def using Event_finish_frame(1) by (rule same_state_advance)
  moreover have "advance w3 (createFn_end env i w)"
    unfolding r by (simp add: advance_def grows_refl)
  ultimately show ?thesis
    by (blast intro: advance_trans)
qed

lemma createFn_end_inv:
  assumes "world_inv w" and "i < length (goroutines w)"
  shows "world_inv (createFn_end env i w)" and "resolved_kept w (createFn_end env i w)"
proof -
  define g where "g = goroutines w ! i"
  define q where "q = g_pc g"
  define ev where "ev = (case g_progress g of Running ev \<Rightarrow> ev | Spawned \<Rightarrow> None)"
  obtain c e where ce: "(case provider_create env (g_containerRequest g) of
                      Created h \<Rightarrow> (Some h, None)
                    | Failed c' m \<Rightarrow> (c', Some m)) = (c, e)"
    by (cases "(case provider_create env (g_containerRequest g) of
                      Created h \<Rightarrow> (Some h, None)
                    | Failed c' m \<Rightarrow> (c', Some m))")
  define w1 where "w1 = act (Provider_Cleanup c) (act (Provider_Create q (g_containerRequest g)) w)"
  define w2 where "w2 = w1\<lparr>heap := (heap w1)[q := (heap w1 ! q)\<lparr>container := c, err := e, ready := True\<rparr>]\<rparr>"
  define w3 where "w3 = Event_finish env ev w2"
  have r: "createFn_end env i w = w3\<lparr>goroutines := take i (goroutines w3) @ drop (Suc i) (goroutines w3)\<rparr>"
    unfolding w3_def w2_def w1_def ev_def q_def g_def
    using ce[unfolded g_def] by (simp add: createFn_end_def Let_def)
  have qin: "q \<in> set (map g_pc (goroutines w))"
    using assms(2) unfolding q_def g_def by (metis length_map nth_map nth_mem)
  have q: "q < length (heap w)" "\<not> ready (heap w ! q)"
    using assms(1) qin by (auto simp: world_inv_def)
  have qrest: "q \<notin> set (take i (map g_pc (goroutines w)) @ drop (Suc i) (map g_pc (goroutines w)))"
    using nth_not_in_rest[of "map g_pc (goroutines w)" i] assms
    by (simp add: world_inv_def q_def g_def)
  have w2_heap: "heap w2 = (heap w)[q := (heap w ! q)\<lparr>container := c, err := e, ready := True\<rparr>]"
    by (simp add: w2_def w1_def act_def)
  have w2_acts: "acts w2 = acts w @ [Provider_Create q (g_containerRequest g), Provider_Cleanup c]"
    by (simp add: w2_def w1_def act_def)
  have w2_rest: "goroutines w2 = goroutines w" "worldLog w2 = worldLog w" "name w2 = name w"
    "cn w2 = cn w" "containerKinds w2 = containerKinds w"
    by (simp_all add: w2_def w1_def act_def)
  have inv2: "(\<forall>p. count_list (provisionings (acts w2)) p
            = (if p < length (heap w2) \<and> ready (heap w2 ! p) then 1 else 0)) \<and> ids_ok (worldLog w2)"
    using assms(1) q
    by (auto simp: world_inv_def w2_heap w2_acts w2_rest provisionings_append count_list_append nth_list_update)
  from effect_Event_finish[of w2 env ev] obtain as where a: "effect w2 w3 as" "event_lines as"
    unfolding w3_def by blast
  have s23: "same_state w2 w3" and p23: "provisionings (acts w3) = provisionings (acts w2)"
    using a event_lines_provisionings[OF a(2)] by (auto simp: effect_def provisionings_append)
  have h3: "heap w3 = heap w2" and g3: "goroutines w3 = goroutines w"
    using s23 by (simp_all add: same_state_def w2_rest)
  have rest_unready: "\<forall>p \<in> set (take i (map g_pc (goroutines w)) @ drop (Suc i) (map g_pc (goroutines w))).
      p < length (heap w2) \<and> \<not> ready (heap w2 ! p)"
  proof
    fix p assume p: "p \<in> set (take i (map g_pc (goroutines w)) @ drop (Suc i) (map g_pc (goroutines w)))"
    then have "p \<in> set (map g_pc (goroutines w))"
      by (auto dest: in_set_takeD in_set_dropD)
    then have "p < length (heap w)" "\<not> ready (heap w ! p)"
      using assms(1) by (auto simp: world_inv_def)
    moreover have "p \<noteq> q" using p qrest by auto
    ultimately show "p < length (heap w2) \<and> \<not> ready (heap w2 ! p)"
      by (simp add: w2_heap)
  qed
  have d: "distinct (take i (map g_pc (goroutines w)) @ drop (Suc i) (map g_pc (goroutines w)))"
    using assms(1) by (intro distinct_remove_nth) (simp add: world_inv_def)
  show "world_inv (createFn_end env i w)"
    unfolding r world_inv_def
    using rest_unready d inv2 s23 p23
    by (simp add: h3 g3 take_map drop_map same_state_def grows_def)
  have "resolved_kept w w2"
    using q by (auto simp: resolved_kept_def w2_heap nth_list_update)
  moreover have "resolved_kept w2 w3"
    using s23 by (rule same_state_kept)
  moreover have "resolved_kept w3 (createFn_end env i w)"
    unfolding r by (simp add: resolved_kept_def)
  ultimately show "resolved_kept w (createFn_end env i w)"
    by (blast intro: kept_trans)
qed

lemma map_g_pc_new:
  "length is = length ps \<Longrightarrow>
     map g_pc (map (\<lambda>(i, pc). new_goroutine spec kind nm replicas net i pc) (zip is ps)) = ps"
  by (induction "is" ps rule: list_induct2) (simp_all add: new_goroutine_def)

lemma NewContainer_parts:
  fixes spec w
  defines "n \<equiv> nat (max (Replicas spec) 1)"
  defines "w' \<equiv> snd (NewContainer spec w)"
  shows "heap w' = heap w @ map (new_pc (group_name w spec) (max (Replicas spec) 1)) [0..<n]"
    and "map g_pc (goroutines w') = map g_pc (goroutines w) @ [length (heap w)..<length (heap w) + n]"
    and "acts w' = acts w" and "worldLog w' = worldLog w" and "name w' = name w" and "cn w' = cn w"
    and "containerKinds w' = (containerKinds w)(spec_kind spec \<mapsto> kind_count (containerKinds w) (spec_kind spec) + 1)"
  unfolding w'_def n_def
  by (simp_all add: NewContainer_eq Let_def map_g_pc_new[unfolded map_map])

lemma ready_new_pc: "\<not> ready (new_pc nm r i)"
  by (simp add: new_pc_def)

lemma NewContainer_advance:
  "advance w (snd (NewContainer spec w))" "resolved_kept w (snd (NewContainer spec w))"
  using NewContainer_parts[of spec w]
  by (simp_all add: advance_def resolved_kept_def grows_refl kind_count_def nth_append)

lemma NewContainer_inv:
  assumes "world_inv w"
  shows "world_inv (snd (NewContainer spec w))"
proof -
  define n where "n = nat (max (Replicas spec) 1)"
  define w' where "w' = snd (NewContainer spec w)"
  note p = NewContainer_parts[of spec w, folded n_def w'_def]
  have old: "\<And>q. q < length (heap w) \<Longrightarrow> heap w' ! q = heap w ! q"
    by (simp add: p(1) nth_append)
  have new: "\<And>q. length (heap w) \<le> q \<Longrightarrow> q < length (heap w) + n \<Longrightarrow> \<not> ready (heap w' ! q)"
    by (simp add: p(1) nth_append ready_new_pc)
  have len: "length (heap w') = length (heap w) + n"
    by (simp add: p(1))
  have 1: "\<forall>q \<in> set (map g_pc (goroutines w')). q < length (heap w') \<and> \<not> ready (heap w' ! q)"
  proof
    fix q assume "q \<in> set (map g_pc (goroutines w'))"
    then consider "q \<in> set (map g_pc (goroutines w))" | "length (heap w) \<le> q" "q < length (heap w) + n"
      unfolding p(2) by auto
    then show "q < length (heap w') \<and> \<not> ready (heap w' ! q)"
    proof cases
      case 1
      then have "q < length (heap w)" "\<not> ready (heap w ! q)"
        using assms by (auto simp: world_inv_def)
      then show ?thesis by (simp add: old len)
    next
      case 2
      then show ?thesis by (simp add: new len)
    qed
  qed
  have 2: "distinct (map g_pc (goroutines w'))"
    unfolding p(2) using assms by (auto simp: world_inv_def)
  have 3: "\<forall>q. count_list (provisionings (acts w')) q
            = (if q < length (heap w') \<and> ready (heap w' ! q) then 1 else 0)"
  proof
    fix q
    have c: "count_list (provisionings (acts w')) q = (if q < length (heap w) \<and> ready (heap w ! q) then 1 else 0)"
      using assms by (simp add: world_inv_def p(3))
    show "count_list (provisionings (acts w')) q
            = (if q < length (heap w') \<and> ready (heap w' ! q) then 1 else 0)"
    proof (cases "q < length (heap w)")
      case True
      then show ?thesis by (simp add: c old len)
    next
      case False
      then show ?thesis using new[of q] by (auto simp: c len)
    qed
  qed
  show "world_inv (snd (NewContainer spec w))"
    using 1 2 3 assms unfolding w'_def[symmetric] by (simp add: world_inv_def p(4))
qed

lemma Destroy_pc_Returns_resolved:
  assumes "Destroy_pc env p w = Returns w'"
  shows "ready (heap w ! p) \<and> (err (heap w ! p) = None \<longrightarrow> container (heap w ! p) \<noteq> None)"
proof -
  have r: "ready (heap w ! p)"
    using assms by (auto simp: Destroy_pc_def Let_def split: if_splits)
  have "container (heap w ! p) \<noteq> None" if "err (heap w ! p) = None"
  proof
    assume "container (heap w ! p) = None"
    with r that have "Destroy_pc env p w = Panics"
      by (simp add: Destroy_pc_def Let_def)
    with assms show False by simp
  qed
  with r show ?thesis by simp
qed

lemma Destroy_pending_Returns_resolved:
  assumes "Destroy_pending env ps w = Returns w'"
  shows "\<forall>p \<in> set ps. ready (heap w ! p) \<and> (err (heap w ! p) = None \<longrightarrow> container (heap w ! p) \<noteq> None)"
  using assms
proof (induction ps arbitrary: w)
  case Nil
  then show ?case by simp
next
  case (Cons p ps)
  then obtain w1 where 1: "Destroy_pc env p w = Returns w1" and 2: "Destroy_pending env ps w1 = Returns w'"
    by (auto split: exec.splits)
  note r = Destroy_pc_Returns_resolved[OF 1]
  from td_Destroy_pc[of w p env] r 1 have "teardown_effect w w1 (pc_teardown (heap w ! p))"
    by auto
  then have "heap w1 = heap w" by (rule td_heap)
  with Cons.IH[OF 2] r show ?case by simp
qed

lemma sound_refl: "sound_step w w"
  by (simp add: sound_step_def advance_refl kept_refl)

lemma sound_trans: "sound_step a b \<Longrightarrow> sound_step b c \<Longrightarrow> sound_step a c"
  unfolding sound_step_def by (blast intro: advance_trans kept_trans)

lemma same_state_sound:
  "same_state w w' \<Longrightarrow> provisionings (acts w') = provisionings (acts w) \<Longrightarrow> sound_step w w'"
  unfolding sound_step_def using same_state_advance same_state_inv same_state_kept by blast

lemma td_sound: "teardown_effect w w' X \<Longrightarrow> sound_step w w'"
  using same_state_sound td_same_state td_acts by blast

lemma NewContainer_sound: "sound_step w (snd (NewContainer spec w))"
  unfolding sound_step_def using NewContainer_advance NewContainer_inv by blast



lemma mustReady_Inr_td:
  assumes "mustReady env wc w = Returns (Inr cs, wc', w')"
  shows "teardown_effect w w' []"
proof (cases "waitReady wc w")
  case (Returns x)
  obtain cs' eo where x: "x = (cs', eo)" by (cases x)
  show ?thesis
  proof (cases eo)
    case None
    from mustReady_cases[of w wc "[]" env cs'] obtain w3 as3 where
      "effect w w3 as3" "event_lines as3"
      "mustReady env wc w = Returns (Inr cs', wc\<lparr>isReady := True\<rparr>, w3)"
      using Returns x None by auto
    with assms show ?thesis using td_quiet by auto
  next
    case (Some e)
    from mustReady_cases[of w wc e env cs'] Returns x Some assms show ?thesis by auto
  qed
next
  case Blocks
  with mustReady_cases[of w wc "[]" env "[]"] assms show ?thesis by auto
next
  case Panics
  with mustReady_cases[of w wc "[]" env "[]"] assms show ?thesis by auto
qed

lemma td_Event_write: "teardown_effect w (Event_write ev content w) []"
  using td_eventsDir td_refl by (simp add: Event_write_def split: option.splits)

lemma member_td:
  "teardown_effect w (Event_finish env (fst (newEvent env d w))
      (Event_write (fst (newEvent env d w)) content (snd (newEvent env d w)))) []"
proof -
  have "teardown_effect w (snd (newEvent env d w)) []"
    by (rule td_newEvent[of env d w "fst (newEvent env d w)"]) simp
  from td_trans[OF td_trans[OF this td_Event_write] td_Event_finish] show ?thesis by simp
qed

lemma user_code_Cons_cases:
  assumes "user_code env (op # ops) w = Returns w'"
  shows "(\<exists>spec. op = Op_NewContainer spec \<and> user_code env ops (snd (NewContainer spec w)) = Returns w')
       \<or> (\<exists>w1. teardown_effect w w1 [] \<and> user_code env ops w1 = Returns w')"
proof (cases op)
  case (Op_NewContainer spec)
  with assms show ?thesis by simp
next
  case (Op_mustReady wc)
  with assms obtain cs wc1 w1 where m: "mustReady env wc w = Returns (Inr cs, wc1, w1)"
    and u: "user_code env ops w1 = Returns w'"
    by (auto split: exec.splits sum.splits prod.splits)
  from mustReady_Inr_td[OF m] u show ?thesis by blast
next
  case (Op_member d out)
  with assms obtain content where "out = Some content" by (cases out) auto
  with assms Op_member have "user_code env ops (Event_finish env (fst (newEvent env d w))
      (Event_write (fst (newEvent env d w)) content (snd (newEvent env d w)))) = Returns w'"
    by simp
  with member_td show ?thesis by blast
next
  case Op_Fatalf
  with assms show ?thesis by simp
qed

lemma user_code_sound:
  "user_code env ops w = Returns w' \<Longrightarrow> sound_step w w'"
proof (induction ops arbitrary: w)
  case Nil
  then show ?case by (simp add: sound_refl)
next
  case (Cons op ops)
  from user_code_Cons_cases[OF Cons.prems] show ?case
  proof (elim disjE exE conjE)
    fix spec assume "user_code env ops (snd (NewContainer spec w)) = Returns w'"
    from sound_trans[OF NewContainer_sound Cons.IH[OF this]] show ?thesis .
  next
    fix w1 assume "teardown_effect w w1 []" and u: "user_code env ops w1 = Returns w'"
    from sound_trans[OF td_sound[OF this(1)] Cons.IH[OF u]] show ?thesis .
  qed
qed



lemma run_onDestroy_sound:
  assumes "run_onDestroy env cb c w = Returns w'"
  shows "sound_step w w'"
proof -
  define w1 where "w1 = act (Call_onDestroy cb (Name c)) w"
  have t1: "teardown_effect w w1 [Call_onDestroy cb (Name c)]"
    unfolding w1_def using td_act[of "Call_onDestroy cb (Name c)" w] by simp
  have u: "user_code env (onDestroy_code env cb c w1) w1 = Returns w'"
    using assms(1) by (simp add: run_onDestroy_def Let_def w1_def)
  from sound_trans[OF td_sound[OF t1] user_code_sound[OF u]] show ?thesis .
qed







lemma Destroy_container_pending:
  assumes "Destroy_container env c w = Returns w'"
  shows "\<exists>w0. Destroy_pending env (pending c) w = Returns w0 \<and>
           teardown_effect w w0 (concat (map (\<lambda>p. pc_teardown (heap w ! p)) (pending c))) \<and>
           (case onDestroy c of None \<Rightarrow> w' = w0 | Some cb \<Rightarrow> run_onDestroy env cb c w0 = Returns w')"
proof -
  from assms obtain w0 where 0: "Destroy_pending env (pending c) w = Returns w0"
    by (auto simp: Destroy_container_def split: exec.splits)
  from td_Destroy_pending[OF Destroy_pending_Returns_resolved[OF 0], of env] 0
  have "teardown_effect w w0 (concat (map (\<lambda>p. pc_teardown (heap w ! p)) (pending c)))"
    by auto
  with 0 assms show ?thesis
    by (auto simp: Destroy_container_def split: option.splits)
qed



lemma Destroy_container_sound:
  assumes "Destroy_container env c w = Returns w'"
  shows "sound_step w w'"
proof -
  from Destroy_container_pending[OF assms] obtain w0 where
    t: "teardown_effect w w0 (concat (map (\<lambda>p. pc_teardown (heap w ! p)) (pending c)))"
    and c: "case onDestroy c of None \<Rightarrow> w' = w0 | Some cb \<Rightarrow> run_onDestroy env cb c w0 = Returns w'"
    by blast
  show ?thesis
  proof (cases "onDestroy c")
    case None
    with c t td_sound show ?thesis by auto
  next
    case (Some cb)
    with c have "run_onDestroy env cb c w0 = Returns w'" by simp
    from sound_trans[OF td_sound[OF t] run_onDestroy_sound[OF this]] show ?thesis .
  qed
qed

lemma Destroy_containers_sound:
  "Destroy_containers env ns w = Returns w' \<Longrightarrow> sound_step w w'"
proof (induction ns arbitrary: w)
  case Nil
  then show ?case by (simp add: sound_refl)
next
  case (Cons n ns)
  show ?case
  proof (cases "containers w n")
    case None
    with Cons show ?thesis by simp
  next
    case (Some c)
    with Cons.prems obtain w1 where 1: "Destroy_container env c w = Returns w1"
      and 2: "Destroy_containers env ns w1 = Returns w'"
      by (auto split: exec.splits)
    from sound_trans[OF Destroy_container_sound[OF 1] Cons.IH[OF 2]] show ?thesis .
  qed
qed

lemma Destroy_sound:
  assumes "Destroy env order w = Returns w'"
  shows "sound_step w w'"
proof -
  obtain ev w1 where ne: "newEvent env ''World: destroy'' w = (ev, w1)"
    by (cases "newEvent env ''World: destroy'' w")
  from assms ne obtain w2 where 2: "Destroy_containers env order w1 = Returns w2"
    and w': "w' = snd (WorldLog_finish env (act Call_WorldLog_finish (Event_finish env ev w2)))"
    by (auto simp: Destroy_def split: exec.splits)
  define w3 where "w3 = Event_finish env ev w2"
  define w4 where "w4 = act Call_WorldLog_finish w3"
  have t1: "teardown_effect w w1 []"
    using ne by (rule td_newEvent)
  have t3: "teardown_effect w2 w3 []"
    unfolding w3_def by (rule td_Event_finish)
  have t4: "teardown_effect w3 w4 [Call_WorldLog_finish]"
    unfolding w4_def using td_act[of Call_WorldLog_finish w3] by simp
  have t5: "teardown_effect w4 w' []"
    unfolding w' w4_def w3_def by (rule td_WorldLog_finish)
  from sound_trans[OF sound_trans[OF td_sound[OF t1] Destroy_containers_sound[OF 2]]
      td_sound[OF td_trans[OF td_trans[OF t3 t4] t5]]]
  show ?thesis .
qed

lemma step_cases:
  assumes "step env w w'"
  shows "(\<exists>i. w' = createFn_begin env i w) \<or> (\<exists>i. i < length (goroutines w) \<and> w' = createFn_end env i w)
           \<or> sound_step w w'"
  using assms
proof (induction rule: step.induct)
  case (call_NewContainer w spec)
  show ?case using NewContainer_sound by blast
next
  case (call_mustReady wc w r wc' w')
  from mustReady_effect[OF call_mustReady(1)] show ?case
    using same_state_sound by (auto simp: effect_def provisionings_append)
next
  case (call_Destroy order w w')
  from Destroy_sound[OF call_Destroy(1)] show ?case by simp
next
  case (call_newEvent w d)
  from effect_newEvent[of env d w "fst (newEvent env d w)" "snd (newEvent env d w)"]
  show ?case
    using event_lines_provisionings same_state_sound by (auto simp: effect_def provisionings_append)
next
  case (call_Event_finish p w)
  from effect_Event_finish[of w env "Some p"] show ?case
    using event_lines_provisionings same_state_sound by (auto simp: effect_def provisionings_append)
qed blast+

lemma step_advance:
  assumes "step env w w'"
  shows "advance w w'"
  using step_cases[OF assms]
proof (elim disjE exE conjE)
  fix i assume "w' = createFn_begin env i w"
  then show ?thesis by (simp add: createFn_begin_advance(1))
next
  fix i assume "w' = createFn_end env i w"
  then show ?thesis by (simp add: createFn_end_advance)
next
  assume "sound_step w w'"
  then show ?thesis by (simp add: sound_step_def)
qed

lemma step_inv:
  assumes "step env w w'" and "world_inv w"
  shows "world_inv w' \<and> resolved_kept w w'"
  using step_cases[OF assms(1)]
proof (elim disjE exE conjE)
  fix i assume "w' = createFn_begin env i w"
  then show ?thesis using createFn_begin_inv[OF assms(2)] createFn_begin_advance(2) by simp
next
  fix i assume "i < length (goroutines w)" "w' = createFn_end env i w"
  then show ?thesis using createFn_end_inv[OF assms(2)] by simp
next
  assume "sound_step w w'"
  then show ?thesis using assms(2) by (simp add: sound_step_def)
qed

lemma init_world_facts:
  "world_inv (init_world env t lp)" "heap (init_world env t lp) = []"
  "name (init_world env t lp) = t" "containers (init_world env t lp) = Map.empty"
  "goroutines (init_world env t lp) = []"
  "enabled (worldLog (init_world env t lp)) \<longleftrightarrow> lp \<noteq> [] \<and> NewWorldLog_err env = None"
  "enabled (worldLog (init_world env t lp)) \<Longrightarrow> startTime (worldLog (init_world env t lp)) = clock env 0"
  "events (worldLog (init_world env t lp)) = []"
  by (auto simp: init_world_def NewWorldLog_def time_Now_def t_Log_def act_def world_inv_def
      ids_ok_def dummy_WorldLog_def Let_def split: option.splits)

lemma New_eq:
  "New env t lp =
     (if testing_Short env then Inl ''skipping testworld test in short mode''
      else
        let (event, w) = newEvent env ''World: Create'' (init_world env t lp)
        in case network_New env of
             Inl e \<Rightarrow> Inl (''Failed to create network: '' @ e)
           | Inr netname \<Rightarrow> Inr (Event_finish env event (w\<lparr>cn := netname\<rparr>)))"
  by (simp add: New_def init_world_def Let_def)

lemma New_Inr:
  assumes "New env t lp = Inr w"
  shows "\<exists>ev w1 net. newEvent env ''World: Create'' (init_world env t lp) = (ev, w1) \<and>
           w = Event_finish env ev (w1\<lparr>cn := net\<rparr>)"
  using assms unfolding New_eq
  by (auto simp: Let_def split: if_splits prod.splits sum.splits)

lemma same_state_cn: "same_state w w' \<Longrightarrow> same_state (w\<lparr>cn := x\<rparr>) (w'\<lparr>cn := x\<rparr>)"
  by (simp add: same_state_def)

lemma New_facts:
  assumes "New env t lp = Inr w"
  shows "world_inv w" and "heap w = []" and "name w = t" and "goroutines w = []"
    and "containers w = Map.empty"
    and "enabled (worldLog w) \<longleftrightarrow> lp \<noteq> [] \<and> NewWorldLog_err env = None"
    and "enabled (worldLog w) \<Longrightarrow> startTime (worldLog w) = clock env 0"
proof -
  from New_Inr[OF assms] obtain ev w1 net
    where ne: "newEvent env ''World: Create'' (init_world env t lp) = (ev, w1)"
      and w: "w = Event_finish env ev (w1\<lparr>cn := net\<rparr>)"
    by blast
  note i = init_world_facts[of env t lp]
  have i1: "world_inv w1" and s1: "same_state (init_world env t lp) w1"
    using newEvent_inv[OF ne i(1)] by simp_all
  have i2: "world_inv (w1\<lparr>cn := net\<rparr>)"
    using i1 by (simp add: world_inv_def)
  show "world_inv w"
    unfolding w using i2 by (rule Event_finish_inv)
  have s2: "same_state (w1\<lparr>cn := net\<rparr>) w"
    unfolding w by (rule Event_finish_frame(1))
  show "heap w = []" "name w = t" "goroutines w = []" "containers w = Map.empty"
    using s1 s2 i by (simp_all add: same_state_def)
  have g: "grows (worldLog (init_world env t lp)) (worldLog w)"
    using s1 s2 by (auto simp: same_state_def intro: grows_trans)
  then show "enabled (worldLog w) \<longleftrightarrow> lp \<noteq> [] \<and> NewWorldLog_err env = None"
    using i(6) by (simp add: grows_def)
  show "enabled (worldLog w) \<Longrightarrow> startTime (worldLog w) = clock env 0"
    using g i(7) by (simp add: grows_def)
qed

lemma reachable_inv: "reachable env w \<Longrightarrow> world_inv w"
proof (induction rule: reachable.induct)
  case (start tname logPath w)
  then show ?case by (rule New_facts(1))
next
  case (next_step w w')
  then show ?case using step_inv by blast
qed

lemma steps_advance:
  assumes "(step env)\<^sup>*\<^sup>* w w'"
  shows "advance w w'"
  using assms
proof (induction rule: rtranclp_induct)
  case base
  then show ?case by (simp add: advance_refl)
next
  case (step y z)
  then show ?case using step_advance advance_trans by blast
qed

lemma steps_inv:
  assumes "(step env)\<^sup>*\<^sup>* w w'" and "world_inv w"
  shows "world_inv w' \<and> resolved_kept w w'"
  using assms
proof (induction rule: rtranclp_induct)
  case base
  then show ?case by (simp add: kept_refl)
next
  case (step y z)
  then have "world_inv y" "resolved_kept w y" by simp_all
  moreover from step_inv[OF step(2) \<open>world_inv y\<close>] have "world_inv z" "resolved_kept y z" by simp_all
  ultimately show ?case by (blast intro: kept_trans)
qed

lemma steps_reachable: "(step env)\<^sup>*\<^sup>* w w' \<Longrightarrow> reachable env w \<Longrightarrow> reachable env w'"
  by (induction rule: rtranclp_induct) (auto intro: reachable.next_step)

lemma NewContainer_member:
  fixes spec w
  defines "r \<equiv> max (Replicas spec) 1"
  defines "nm \<equiv> group_name w spec"
  defines "w' \<equiv> snd (NewContainer spec w)"
  defines "wc \<equiv> fst (NewContainer spec w)"
  assumes i: "i < nat r"
  shows "pending wc ! i = length (heap w) + i"
    and "heap w' ! (length (heap w) + i) = new_pc nm r i"
    and "goroutines w' ! (length (goroutines w) + i)
           = new_goroutine spec (spec_kind spec) nm r (cn w) i (length (heap w) + i)"
  using i unfolding w'_def wc_def nm_def r_def
  by (simp_all add: NewContainer_eq Let_def nth_append)

lemma NewContainer_wc:
  "fst (NewContainer spec w) =
     \<lparr>Name = group_name w spec, isReady = False,
      pending = [length (heap w) ..< length (heap w) + nat (max (Replicas spec) 1)],
      onDestroy = OnDestroy spec\<rparr>"
  by (simp add: NewContainer_eq Let_def)

lemma NewContainer_registered:
  "containers (snd (NewContainer spec w)) (group_name w spec) = Some (fst (NewContainer spec w))"
  by (simp add: NewContainer_eq Let_def)

lemma NewContainer_count:
  "kind_count (containerKinds (snd (NewContainer spec w))) (spec_kind spec)
     = kind_count (containerKinds w) (spec_kind spec) + 1"
  by (simp add: NewContainer_parts kind_count_def)

lemma group_name_neq:
  assumes "name w1 = name w" and "spec_kind spec2 = spec_kind spec"
    and "kind_count (containerKinds w) (spec_kind spec) < kind_count (containerKinds w1) (spec_kind spec)"
  shows "group_name w1 spec2 \<noteq> group_name w spec"
proof
  assume "group_name w1 spec2 = group_name w spec"
  then have "itoa (kind_count (containerKinds w1) (spec_kind spec) + 1)
               = itoa (kind_count (containerKinds w) (spec_kind spec) + 1)"
    using assms(1,2) by (simp add: group_name_def)
  then have "kind_count (containerKinds w1) (spec_kind spec) + 1
               = kind_count (containerKinds w) (spec_kind spec) + 1"
    by (rule itoa_inj)
  with assms(3) show False by simp
qed

text \<open>
  C4. \<open>NewContainer\<close> names the group \<open>{world}-{kind}-{c}\<close>, where the kind is the last
  path segment of the image with the tag stripped, else the same of the build context,
  else \<open>container\<close>, and \<open>c\<close> is the counter of the kind after the increment; the group
  is registered under that name; a later group of the same kind in the same world gets
  a greater number and another name. For \<open>N \<ge> 1\<close> requested replicas the group has \<open>N\<close>
  pending containers. For \<open>N = 1\<close> the member's address is the group name and its
  aliases are the group name alone; for \<open>N > 1\<close> member \<open>i\<close> (from 1) has the address
  \<open>{group}-{i}\<close> and the aliases \<open>{group}-{i}\<close> and the group name. The address of a
  member is the name of its pending container and of the request its goroutine sends;
  the aliases are those of that request on the world's network.
\<close>

theorem NewContainer_naming:
  assumes "NewContainer spec w = (wc, w')"
  shows "Name wc = name w @ ''-'' @ spec_kind spec @ ''-''
                     @ itoa (kind_count (containerKinds w') (spec_kind spec))
       \<and> kind_count (containerKinds w') (spec_kind spec)
           = kind_count (containerKinds w) (spec_kind spec) + 1
       \<and> containers w' (Name wc) = Some wc
       \<and> (\<forall>env w1 spec2 wc2 w2.
             (step env)\<^sup>*\<^sup>* w' w1 \<longrightarrow> spec_kind spec2 = spec_kind spec \<longrightarrow>
             NewContainer spec2 w1 = (wc2, w2) \<longrightarrow>
               kind_count (containerKinds w') (spec_kind spec)
                 < kind_count (containerKinds w2) (spec_kind spec)
               \<and> Name wc2 \<noteq> Name wc)
       \<and> (1 \<le> Replicas spec \<longrightarrow> length (pending wc) = nat (Replicas spec))
       \<and> (Replicas spec = 1 \<longrightarrow>
             pc_name (heap w' ! (pending wc ! 0)) = Name wc
             \<and> g_pc (goroutines w' ! length (goroutines w)) = pending wc ! 0
             \<and> req_Name (g_containerRequest (goroutines w' ! length (goroutines w))) = Name wc
             \<and> req_NetworkAliases (g_containerRequest (goroutines w' ! length (goroutines w)))
                 = [(cn w, [Name wc])])
       \<and> (1 < Replicas spec \<longrightarrow>
             (\<forall>i < nat (Replicas spec).
                pc_name (heap w' ! (pending wc ! i)) = Name wc @ ''-'' @ itoa (int i + 1)
                \<and> g_pc (goroutines w' ! (length (goroutines w) + i)) = pending wc ! i
                \<and> req_Name (g_containerRequest (goroutines w' ! (length (goroutines w) + i)))
                    = Name wc @ ''-'' @ itoa (int i + 1)
                \<and> req_NetworkAliases (g_containerRequest (goroutines w' ! (length (goroutines w) + i)))
                    = [(cn w, [Name wc @ ''-'' @ itoa (int i + 1), Name wc])]))"
proof -
  have wc: "wc = fst (NewContainer spec w)" and w': "w' = snd (NewContainer spec w)"
    using assms by simp_all
  have nm: "Name wc = group_name w spec"
    by (simp add: wc NewContainer_wc)
  have cnt: "kind_count (containerKinds w') (spec_kind spec)
           = kind_count (containerKinds w) (spec_kind spec) + 1"
    unfolding w' by (rule NewContainer_count)
  have 1: "Name wc = name w @ ''-'' @ spec_kind spec @ ''-''
                     @ itoa (kind_count (containerKinds w') (spec_kind spec))"
    by (simp add: nm cnt group_name_def)
  have "containers w' (group_name w spec) = Some wc"
    unfolding w' wc by (rule NewContainer_registered)
  then have 3: "containers w' (Name wc) = Some wc"
    by (simp add: nm)
  have 4: "kind_count (containerKinds w') (spec_kind spec) < kind_count (containerKinds w2) (spec_kind spec)
             \<and> Name wc2 \<noteq> Name wc"
    if st: "(step env)\<^sup>*\<^sup>* w' w1" and k: "spec_kind spec2 = spec_kind spec"
      and n2: "NewContainer spec2 w1 = (wc2, w2)" for env w1 spec2 wc2 w2
  proof -
    have a: "advance w' w1" using st by (rule steps_advance)
    have a0: "advance w w'" unfolding w' by (rule NewContainer_advance(1))
    have le: "kind_count (containerKinds w') (spec_kind spec) \<le> kind_count (containerKinds w1) (spec_kind spec)"
      using a by (simp add: advance_def)
    have c2: "kind_count (containerKinds w2) (spec_kind spec) = kind_count (containerKinds w1) (spec_kind spec) + 1"
      using NewContainer_count[of spec2 w1] n2 k by simp
    have n: "name w1 = name w"
      using a a0 by (simp add: advance_def)
    have "kind_count (containerKinds w) (spec_kind spec) < kind_count (containerKinds w1) (spec_kind spec)"
      using le cnt by simp
    have "Name wc2 = group_name w1 spec2"
      using n2 NewContainer_wc[of spec2 w1] by simp
    with group_name_neq[OF n k \<open>kind_count (containerKinds w) (spec_kind spec) < kind_count (containerKinds w1) (spec_kind spec)\<close>]
    have "Name wc2 \<noteq> Name wc"
      by (simp add: nm)
    with le c2 show ?thesis by simp
  qed
  have 5: "length (pending wc) = nat (Replicas spec)" if "1 \<le> Replicas spec"
    using that by (simp add: wc NewContainer_wc max_def)
  have m: "pc_name (heap w' ! (pending wc ! i)) = replicaName (Name wc) (max (Replicas spec) 1) i
       \<and> g_pc (goroutines w' ! (length (goroutines w) + i)) = pending wc ! i
       \<and> req_Name (g_containerRequest (goroutines w' ! (length (goroutines w) + i)))
            = replicaName (Name wc) (max (Replicas spec) 1) i
       \<and> req_NetworkAliases (g_containerRequest (goroutines w' ! (length (goroutines w) + i)))
            = [(cn w, replica_aliases (Name wc) (max (Replicas spec) 1) i)]"
    if "i < nat (max (Replicas spec) 1)" for i
    using NewContainer_member[OF that, of w]
    by (simp add: wc[symmetric] w'[symmetric] nm new_pc_def new_goroutine_def
        toGenericContainerRequest_def)
  have 6: "pc_name (heap w' ! (pending wc ! 0)) = Name wc
             \<and> g_pc (goroutines w' ! length (goroutines w)) = pending wc ! 0
             \<and> req_Name (g_containerRequest (goroutines w' ! length (goroutines w))) = Name wc
             \<and> req_NetworkAliases (g_containerRequest (goroutines w' ! length (goroutines w)))
                 = [(cn w, [Name wc])]"
    if "Replicas spec = 1"
    using m[of 0] that by (simp add: replicaName_def replica_aliases_def)
  have 7: "pc_name (heap w' ! (pending wc ! i)) = Name wc @ ''-'' @ itoa (int i + 1)
                \<and> g_pc (goroutines w' ! (length (goroutines w) + i)) = pending wc ! i
                \<and> req_Name (g_containerRequest (goroutines w' ! (length (goroutines w) + i)))
                    = Name wc @ ''-'' @ itoa (int i + 1)
                \<and> req_NetworkAliases (g_containerRequest (goroutines w' ! (length (goroutines w) + i)))
                    = [(cn w, [Name wc @ ''-'' @ itoa (int i + 1), Name wc])]"
    if "1 < Replicas spec" "i < nat (Replicas spec)" for i
    using m[of i] that by (simp add: replicaName_def replica_aliases_def max_def)
  show ?thesis
    using 1 cnt 3 4 5 6 7 by blast
qed

lemma itoa_small: "itoa 1 = ''1''" "itoa 2 = ''2''" "itoa 3 = ''3''"
  by (simp_all add: itoa_def digits10.simps digit_char_def)

lemma spec_kind_example: "spec_kind example_spec = ''alpine''"
  by (simp add: spec_kind_def example_spec_def last_segment_def strip_tag_def)

theorem NewContainer_naming_witness:
  "Replicas example_spec = 3
   \<and> Name (fst (NewContainer example_spec example_world)) = ''T-alpine-1''
   \<and> length (pending (fst (NewContainer example_spec example_world))) = 3
   \<and> pc_name (heap (snd (NewContainer example_spec example_world))
                 ! (pending (fst (NewContainer example_spec example_world)) ! 1)) = ''T-alpine-1-2''
   \<and> req_NetworkAliases (g_containerRequest
         (goroutines (snd (NewContainer example_spec example_world)) ! 1))
        = [(''net'', [''T-alpine-1-2'', ''T-alpine-1''])]
   \<and> Name (fst (NewContainer example_spec (snd (NewContainer example_spec example_world))))
        \<noteq> Name (fst (NewContainer example_spec example_world))"
proof -
  define wc where "wc = fst (NewContainer example_spec example_world)"
  define w' where "w' = snd (NewContainer example_spec example_world)"
  have n: "NewContainer example_spec example_world = (wc, w')"
    by (simp add: wc_def w'_def)
  note t = NewContainer_naming[OF n]
  have r: "Replicas example_spec = 3" by (simp add: example_spec_def)
  have "kind_count (containerKinds w') ''alpine'' = 1"
    using t by (simp add: spec_kind_example example_world_def kind_count_def)
  then have nm: "Name wc = ''T-alpine-1''"
    using t by (simp add: spec_kind_example example_world_def itoa_small)
  have l: "length (pending wc) = 3"
    using t r by simp
  from t r have q: "\<forall>i < 3.
        pc_name (heap w' ! (pending wc ! i)) = Name wc @ ''-'' @ itoa (int i + 1)
      \<and> g_pc (goroutines w' ! (length (goroutines example_world) + i)) = pending wc ! i
      \<and> req_Name (g_containerRequest (goroutines w' ! (length (goroutines example_world) + i)))
            = Name wc @ ''-'' @ itoa (int i + 1)
      \<and> req_NetworkAliases (g_containerRequest (goroutines w' ! (length (goroutines example_world) + i)))
            = [(cn example_world, [Name wc @ ''-'' @ itoa (int i + 1), Name wc])]"
    by simp
  from q[rule_format, of 1]
  have m: "pc_name (heap w' ! (pending wc ! 1)) = ''T-alpine-1-2''
      \<and> req_NetworkAliases (g_containerRequest (goroutines w' ! 1)) = [(''net'', [''T-alpine-1-2'', ''T-alpine-1''])]"
    by (simp add: nm itoa_small example_world_def)
  have "(step example_env)\<^sup>*\<^sup>* w' w'" by simp
  moreover have "NewContainer example_spec w' = (fst (NewContainer example_spec w'), snd (NewContainer example_spec w'))"
    by simp
  ultimately have "Name (fst (NewContainer example_spec w')) \<noteq> Name wc"
    using t by blast
  with r nm l m show ?thesis
    unfolding wc_def w'_def by simp
qed

lemma spec_kind_Replicas: "spec_kind (spec\<lparr>Replicas := r\<rparr>) = spec_kind spec"
  by (simp add: spec_kind_def)

lemma spec_kind_Awaited: "spec_kind (spec\<lparr>Awaited := a\<rparr>) = spec_kind spec"
  by (simp add: spec_kind_def)

lemma NewContainer_ignores_Awaited: "NewContainer (spec\<lparr>Awaited := a\<rparr>) w = NewContainer spec w"
  by (simp add: NewContainer_eq Let_def group_name_def spec_kind_Awaited new_goroutine_def
      toGenericContainerRequest_def)

text \<open>
  C10. A replica count that is zero or negative is treated as 1: \<open>NewContainer\<close> does
  exactly what it does for \<open>Replicas = 1\<close>, the group has one pending container and the
  address of that member is the group name.
\<close>

theorem NewContainer_nonpositive_Replicas:
  assumes "Replicas spec \<le> 0"
  shows "NewContainer spec w = NewContainer (spec\<lparr>Replicas := 1\<rparr>) w
       \<and> length (pending (fst (NewContainer spec w))) = 1
       \<and> pc_name (heap (snd (NewContainer spec w)) ! (pending (fst (NewContainer spec w)) ! 0))
           = Name (fst (NewContainer spec w))
       \<and> req_Name (g_containerRequest (goroutines (snd (NewContainer spec w)) ! length (goroutines w)))
           = Name (fst (NewContainer spec w))"
proof -
  have m: "max (Replicas spec) 1 = 1" using assms by simp
  have 1: "NewContainer spec w = NewContainer (spec\<lparr>Replicas := 1\<rparr>) w"
    by (simp add: NewContainer_eq Let_def m group_name_def spec_kind_Replicas new_goroutine_def
        toGenericContainerRequest_def)
  have 2: "length (pending (fst (NewContainer spec w))) = 1"
    by (simp add: NewContainer_wc m)
  have "(0::nat) < nat (max (Replicas spec) 1)" by (simp add: m)
  from NewContainer_member[OF this, of w]
  have 3: "pc_name (heap (snd (NewContainer spec w)) ! (pending (fst (NewContainer spec w)) ! 0))
           = Name (fst (NewContainer spec w))
       \<and> req_Name (g_containerRequest (goroutines (snd (NewContainer spec w)) ! length (goroutines w)))
           = Name (fst (NewContainer spec w))"
    by (simp add: m new_pc_def replicaName_def NewContainer_wc new_goroutine_def
        toGenericContainerRequest_def)
  from 1 2 3 show ?thesis by simp
qed

theorem NewContainer_nonpositive_Replicas_witness:
  "Replicas (example_spec\<lparr>Replicas := - 2\<rparr>) \<le> 0
   \<and> NewContainer (example_spec\<lparr>Replicas := - 2\<rparr>) example_world
       = NewContainer (example_spec\<lparr>Replicas := 1\<rparr>) example_world
   \<and> length (pending (fst (NewContainer (example_spec\<lparr>Replicas := - 2\<rparr>) example_world))) = 1"
proof -
  have h: "Replicas (example_spec\<lparr>Replicas := - 2\<rparr>) \<le> 0" by simp
  have e: "example_spec\<lparr>Replicas := - 2, Replicas := 1\<rparr> = example_spec\<lparr>Replicas := 1\<rparr>"
    by simp
  from NewContainer_nonpositive_Replicas[OF h, of example_world, unfolded e] h show ?thesis
    by blast
qed

lemma New_example: "New example_env ''T'' [] = Inr example_world"
  by (simp add: New_def example_env_def example_world_def newEvent_def dummy_WorldLog_def
      Event_finish_def)

lemma upt_3: "[n..<n + 3] = [n, Suc n, Suc (Suc n)]"
  by (simp add: numeral_3_eq_3 upt_rec)

text \<open>
  C1 (the code does not do this). The specification \<open>example_spec\<close> has \<open>Awaited\<close> set. In
  the world \<open>New\<close> returned, \<open>NewContainer\<close> starts a goroutine for each of the three
  replicas and returns: no provisioning has run, the provider has not been called, no
  pending container is resolved, and \<open>waitReady\<close> on the returned group would block.
\<close>

theorem NewContainer_Awaited_returns_unresolved:
  "New example_env ''T'' [] = Inr example_world
   \<and> Awaited example_spec
   \<and> pending (fst (NewContainer example_spec example_world)) = [0, 1, 2]
   \<and> map ready (heap (snd (NewContainer example_spec example_world))) = [False, False, False]
   \<and> map g_progress (goroutines (snd (NewContainer example_spec example_world)))
       = [Spawned, Spawned, Spawned]
   \<and> map g_pc (goroutines (snd (NewContainer example_spec example_world))) = [0, 1, 2]
   \<and> acts (snd (NewContainer example_spec example_world)) = []
   \<and> waitReady (fst (NewContainer example_spec example_world))
        (snd (NewContainer example_spec example_world)) = Blocks"
proof -
  have r: "nat (max (Replicas example_spec) 1) = 3" by (simp add: example_spec_def)
  have h0: "heap example_world = []" "goroutines example_world = []" "acts example_world = []"
    by (simp_all add: example_world_def)
  have u: "[0..<3] = [0, Suc 0, Suc (Suc 0)]" using upt_3[of 0] by simp
  have p: "pending (fst (NewContainer example_spec example_world)) = [0, 1, 2]"
    using upt_3[of 0] by (simp add: NewContainer_wc r h0)
  have hp: "map ready (heap (snd (NewContainer example_spec example_world))) = [False, False, False]"
    by (simp add: NewContainer_parts(1) r h0 u new_pc_def)
  have g: "map g_progress (goroutines (snd (NewContainer example_spec example_world)))
       = [Spawned, Spawned, Spawned]"
    using upt_3[of 0] by (simp add: NewContainer_eq Let_def r h0 u new_goroutine_def)
  have gp: "map g_pc (goroutines (snd (NewContainer example_spec example_world))) = [0, 1, 2]"
    using upt_3[of 0] by (simp add: NewContainer_parts(2) r h0)
  have a: "acts (snd (NewContainer example_spec example_world)) = []"
    by (simp add: NewContainer_parts(3) h0)
  have "\<not> ready (heap (snd (NewContainer example_spec example_world)) ! 0)"
    by (simp add: NewContainer_parts(1) r h0 u new_pc_def)
  then have b: "waitReady (fst (NewContainer example_spec example_world))
        (snd (NewContainer example_spec example_world)) = Blocks"
    by (simp add: waitReady_def p)
  show ?thesis
    using New_example p hp g gp a b by (simp add: example_spec_def)
qed

text \<open>
  C2. Let the first \<open>k\<close> members of a group be resolved without error. If these are all
  the members, \<open>waitReady\<close> returns their containers in member order and \<open>mustReady\<close>
  returns them. If member \<open>k\<close> is not resolved, both wait for it, whatever the later
  members are. If member \<open>k\<close> is resolved with an error, \<open>waitReady\<close> returns at once with
  the error prefixed by that member's name (the containers of the first \<open>k\<close> members,
  \<open>nil\<close> for the others), whether or not the later members are resolved, and \<open>mustReady\<close>
  ends the test with \<open>t.Fatalf\<close> and a message that names the group and that member.
\<close>

theorem mustReady_order_and_short_circuit:
  assumes "k \<le> length (pending wc)"
    and "\<forall>j<k. ready (heap w ! (pending wc ! j)) \<and> err (heap w ! (pending wc ! j)) = None"
  shows "(k = length (pending wc) \<longrightarrow>
            waitReady wc w = Returns (map (\<lambda>p. container (heap w ! p)) (pending wc), None)
          \<and> (\<exists>w'. mustReady env wc w
                     = Returns (Inr (map (\<lambda>p. container (heap w ! p)) (pending wc)),
                                wc\<lparr>isReady := True\<rparr>, w')
                   \<and> heap w' = heap w))
       \<and> (k < length (pending wc) \<longrightarrow> \<not> ready (heap w ! (pending wc ! k)) \<longrightarrow>
            waitReady wc w = Blocks \<and> mustReady env wc w = Blocks)
       \<and> (k < length (pending wc) \<longrightarrow> ready (heap w ! (pending wc ! k)) \<longrightarrow>
            (\<forall>e. err (heap w ! (pending wc ! k)) = Some e \<longrightarrow>
               waitReady wc w
                 = Returns (map (\<lambda>p. container (heap w ! p)) (take k (pending wc))
                              @ replicate (length (pending wc) - k) None,
                            Some (pc_name (heap w ! (pending wc ! k)) @ '': '' @ e))
             \<and> (\<exists>w'. mustReady env wc w
                        = Returns (Inl (''Container '' @ Name wc @ '' failed to create: ''
                                          @ pc_name (heap w ! (pending wc ! k)) @ '': '' @ e),
                                   wc, w')
                      \<and> T_Fatalf (''Container '' @ Name wc @ '' failed to create: ''
                                    @ pc_name (heap w ! (pending wc ! k)) @ '': '' @ e)
                          \<in> set (acts w')
                      \<and> heap w' = heap w)))"
proof -
  note sp = waitReady_split[OF assms]
  have 1: "waitReady wc w = Returns (map (\<lambda>p. container (heap w ! p)) (pending wc), None)
          \<and> (\<exists>w'. mustReady env wc w
                     = Returns (Inr (map (\<lambda>p. container (heap w ! p)) (pending wc)),
                                wc\<lparr>isReady := True\<rparr>, w')
                   \<and> heap w' = heap w)"
    if k: "k = length (pending wc)"
  proof -
    have wr: "waitReady wc w = Returns (map (\<lambda>p. container (heap w ! p)) (pending wc), None)"
      using sp k by simp
    from mustReady_cases[of w wc "[]" env "map (\<lambda>p. container (heap w ! p)) (pending wc)"] wr
    obtain w3 as3 where "effect w w3 as3"
      "mustReady env wc w = Returns (Inr (map (\<lambda>p. container (heap w ! p)) (pending wc)), wc\<lparr>isReady := True\<rparr>, w3)"
      by auto
    then show ?thesis
      using wr by (auto simp: effect_def same_state_def)
  qed
  have d: "drop k (pending wc) = pending wc ! k # drop (Suc k) (pending wc)" if "k < length (pending wc)"
    using that by (simp add: Cons_nth_drop_Suc)
  have 2: "waitReady wc w = Blocks \<and> mustReady env wc w = Blocks"
    if k: "k < length (pending wc)" and nr: "\<not> ready (heap w ! (pending wc ! k))"
  proof -
    have wr: "waitReady wc w = Blocks"
      using sp d[OF k] nr by simp
    with mustReady_cases[of w wc "[]" env "[]"] show ?thesis by auto
  qed
  have 3: "waitReady wc w
                 = Returns (map (\<lambda>p. container (heap w ! p)) (take k (pending wc))
                              @ replicate (length (pending wc) - k) None,
                            Some (pc_name (heap w ! (pending wc ! k)) @ '': '' @ e))
             \<and> (\<exists>w'. mustReady env wc w
                        = Returns (Inl (''Container '' @ Name wc @ '' failed to create: ''
                                          @ pc_name (heap w ! (pending wc ! k)) @ '': '' @ e),
                                   wc, w')
                      \<and> T_Fatalf (''Container '' @ Name wc @ '' failed to create: ''
                                    @ pc_name (heap w ! (pending wc ! k)) @ '': '' @ e)
                          \<in> set (acts w')
                      \<and> heap w' = heap w)"
    if k: "k < length (pending wc)" and r: "ready (heap w ! (pending wc ! k))"
      and e: "err (heap w ! (pending wc ! k)) = Some e" for e
  proof -
    define cs where "cs = map (\<lambda>p. container (heap w ! p)) (take k (pending wc))
                              @ replicate (length (pending wc) - k) None"
    define m where "m = pc_name (heap w ! (pending wc ! k)) @ '': '' @ e"
    have wr: "waitReady wc w = Returns (cs, Some m)"
      using sp d[OF k] r e by (simp add: cs_def m_def)
    from mustReady_cases[of w wc m env cs] wr
    obtain w2 as2 where "effect w w2 as2"
      "T_Fatalf (''Container '' @ Name wc @ '' failed to create: '' @ m) \<in> set as2"
      "mustReady env wc w = Returns (Inl (''Container '' @ Name wc @ '' failed to create: '' @ m), wc, w2)"
      by auto
    then show ?thesis
      using wr unfolding cs_def m_def by (auto simp: effect_def same_state_def)
  qed
  from 1 2 3 show ?thesis by blast
qed

lemma waiting_world_heap:
  "heap waiting_world =
     [\<lparr>pc_name = ''T-alpine-1-1'', ready = True, container = Some 10, err = None\<rparr>,
      \<lparr>pc_name = ''T-alpine-1-2'', ready = True, container = None, err = Some ''boom''\<rparr>,
      \<lparr>pc_name = ''T-alpine-1-3'', ready = False, container = None, err = None\<rparr>]"
  by (simp add: waiting_world_def)

theorem mustReady_order_and_short_circuit_witness:
  "ready (heap waiting_world ! 0) \<and> err (heap waiting_world ! 0) = None
   \<and> ready (heap waiting_world ! 1) \<and> err (heap waiting_world ! 1) = Some ''boom''
   \<and> \<not> ready (heap waiting_world ! 2)
   \<and> waitReady example_group waiting_world
       = Returns ([Some 10, None, None], Some ''T-alpine-1-2: boom'')
   \<and> (\<exists>w'. mustReady example_env example_group waiting_world
              = Returns (Inl ''Container T-alpine-1 failed to create: T-alpine-1-2: boom'',
                         example_group, w'))
   \<and> waitReady (example_group\<lparr>pending := [0, 2, 1]\<rparr>) waiting_world = Blocks
   \<and> waitReady (example_group\<lparr>pending := [0]\<rparr>) waiting_world = Returns ([Some 10], None)"
proof -
  have a: "(1::nat) \<le> length (pending example_group)"
    "\<forall>j<1. ready (heap waiting_world ! (pending example_group ! j))
             \<and> err (heap waiting_world ! (pending example_group ! j)) = None"
    by (simp_all add: example_group_def waiting_world_heap)
  have b: "(1::nat) \<le> length (pending (example_group\<lparr>pending := [0, 2, 1]\<rparr>))"
    "\<forall>j<1. ready (heap waiting_world ! (pending (example_group\<lparr>pending := [0, 2, 1]\<rparr>) ! j))
             \<and> err (heap waiting_world ! (pending (example_group\<lparr>pending := [0, 2, 1]\<rparr>) ! j)) = None"
    by (simp_all add: waiting_world_heap)
  have c: "(1::nat) \<le> length (pending (example_group\<lparr>pending := [0]\<rparr>))"
    "\<forall>j<1. ready (heap waiting_world ! (pending (example_group\<lparr>pending := [0]\<rparr>) ! j))
             \<and> err (heap waiting_world ! (pending (example_group\<lparr>pending := [0]\<rparr>) ! j)) = None"
    by (simp_all add: waiting_world_heap)
  note ta = mustReady_order_and_short_circuit[OF a, of example_env]
  note tb = mustReady_order_and_short_circuit[OF b, of example_env]
  note tc = mustReady_order_and_short_circuit[OF c, of example_env]
  have 1: "waitReady example_group waiting_world
       = Returns ([Some 10, None, None], Some ''T-alpine-1-2: boom'')
   \<and> (\<exists>w'. mustReady example_env example_group waiting_world
              = Returns (Inl ''Container T-alpine-1 failed to create: T-alpine-1-2: boom'',
                         example_group, w'))"
    using ta by (simp add: example_group_def waiting_world_heap numeral_3_eq_3) blast
  have 2: "waitReady (example_group\<lparr>pending := [0, 2, 1]\<rparr>) waiting_world = Blocks"
    using tb by (simp add: waiting_world_heap)
  have 3: "waitReady (example_group\<lparr>pending := [0]\<rparr>) waiting_world = Returns ([Some 10], None)"
    using tc by (simp add: waiting_world_heap)
  from 1 2 3 show ?thesis
    by (simp add: waiting_world_heap)
qed

lemma Destroy_callback_Panics:
  assumes "containers w n = Some c" and "onDestroy c = Some cb"
    and "\<forall>p \<in> set (pending c). ready (heap w ! p) \<and> (err (heap w ! p) = None \<longrightarrow> container (heap w ! p) \<noteq> None)"
    and "\<forall>w1. heap w1 = heap w \<longrightarrow> run_onDestroy env cb c w1 = Panics"
  shows "Destroy env (n # ns) w = Panics"
proof -
  obtain ev w1 where ne: "newEvent env ''World: destroy'' w = (ev, w1)"
    by (cases "newEvent env ''World: destroy'' w")
  have h: "heap w1 = heap w" "containers w1 = containers w"
    using td_newEvent[OF ne] by (simp_all add: td_heap td_containers)
  from td_Destroy_pending[of "pending c" w1 env] assms(3) obtain w0 where
    0: "Destroy_pending env (pending c) w1 = Returns w0" and "heap w0 = heap w1"
    using td_heap by (auto simp: h)
  with assms(4) h have "run_onDestroy env cb c w0 = Panics" by simp
  with 0 assms(2) have "Destroy_container env c w1 = Panics"
    by (simp add: Destroy_container_def)
  with assms(1) h have "Destroy_containers env (n # ns) w1 = Panics" by simp
  with ne show ?thesis by (simp add: Destroy_def)
qed

lemma resolved_world_heap:
  "heap resolved_world =
     [\<lparr>pc_name = ''T-alpine-1-1'', ready = True, container = Some 10, err = None\<rparr>,
      \<lparr>pc_name = ''T-alpine-1-2'', ready = True, container = None, err = Some ''boom''\<rparr>,
      \<lparr>pc_name = ''T-alpine-1-3'', ready = True, container = Some 12, err = None\<rparr>]"
  by (simp add: resolved_world_def waiting_world_def)


lemma mustReady_not_Blocks:
  assumes "waitReady wc w = Returns x"
  shows "mustReady env wc w \<noteq> Blocks"
proof -
  obtain cs eo where x: "x = (cs, eo)" by (cases x)
  show ?thesis
  proof (cases eo)
    case None
    with mustReady_cases[of w wc "[]" env cs] assms x show ?thesis by auto
  next
    case (Some e)
    with mustReady_cases[of w wc e env cs] assms x show ?thesis by auto
  qed
qed

text \<open>
  A callback that does not return: in \<open>fatal_world\<close> the callback of the group calls
  \<open>LogFile\<close>, which ends the test with \<open>t.Fatalf\<close>; \<open>Destroy\<close> ends there, and the timeline
  is not finalised.
\<close>

lemma Destroy_fatal_callback:
  "Destroy example_env [''T-alpine-1''] fatal_world = Panics"
proof (rule Destroy_callback_Panics[where c = "example_group\<lparr>onDestroy := Some 8\<rparr>" and cb = 8])
  show "containers fatal_world ''T-alpine-1'' = Some (example_group\<lparr>onDestroy := Some 8\<rparr>)"
    by (simp add: fatal_world_def)
  show "onDestroy (example_group\<lparr>onDestroy := Some 8\<rparr>) = Some 8"
    by simp
  have h: "heap fatal_world = heap resolved_world"
    by (simp add: fatal_world_def)
  show "\<forall>p \<in> set (pending (example_group\<lparr>onDestroy := Some 8\<rparr>)).
          ready (heap fatal_world ! p) \<and> (err (heap fatal_world ! p) = None \<longrightarrow> container (heap fatal_world ! p) \<noteq> None)"
    by (simp add: h resolved_world_heap example_group_def)
  show "\<forall>w1. heap w1 = heap fatal_world \<longrightarrow>
          run_onDestroy example_env 8 (example_group\<lparr>onDestroy := Some 8\<rparr>) w1 = Panics"
  proof (intro allI impI)
    fix w1 :: World
    assume h1: "heap w1 = heap fatal_world"
    define c where "c = example_group\<lparr>onDestroy := Some 8\<rparr>"
    define w where "w = act (Call_onDestroy 8 (Name c)) w1"
    have hw: "heap w = heap resolved_world"
      by (simp add: w_def act_def h1 h)
    have "waitReady c w = Returns ([Some 10, None, None], Some ''T-alpine-1-2: boom'')"
      by (simp add: waitReady_def hw resolved_world_heap c_def example_group_def)
    from mustReady_not_Blocks[OF this]
    have nb: "mustReady example_env c w \<noteq> Blocks" .
    have r: "run_onDestroy example_env 8 c w1
           = user_code example_env [Op_mustReady c, Op_member (Name c @ '': log file /out'') None] w"
      by (simp add: run_onDestroy_def Let_def w_def example_env_def)
    have "run_onDestroy example_env 8 c w1 = Panics"
      unfolding r using nb
      by (simp split: exec.splits sum.splits prod.splits)
    then show "run_onDestroy example_env 8 (example_group\<lparr>onDestroy := Some 8\<rparr>) w1 = Panics"
      by (simp add: c_def)
  qed
qed





lemma waitReady_loop_cong:
  "\<forall>p \<in> set ps. h' ! p = h ! p \<Longrightarrow> waitReady_loop h' ps i cs = waitReady_loop h ps i cs"
  by (induction ps arbitrary: i cs) (auto split: option.splits)

text \<open>
  C9. In a world a test can reach, let a pending container be resolved. Then in every
  world the test reaches from there, by any steps of goroutines and any calls
  (\<open>mustReady\<close> among them), the pending container holds the same container and error,
  and the provider has been asked to create its container exactly once; \<open>waitReady\<close> on
  a group whose members were all resolved returns what it returned before. At every
  moment the provider has been asked once for each resolved pending container and not
  at all for any other.
\<close>

theorem resolved_once_and_for_all:
  assumes "reachable env w" and "(step env)\<^sup>*\<^sup>* w w'"
  shows "(\<forall>p < length (heap w). ready (heap w ! p) \<longrightarrow>
            heap w' ! p = heap w ! p
          \<and> count_list (provisionings (acts w)) p = 1
          \<and> count_list (provisionings (acts w')) p = 1)
       \<and> (\<forall>wc. (\<forall>p \<in> set (pending wc). p < length (heap w) \<and> ready (heap w ! p)) \<longrightarrow>
             waitReady wc w' = waitReady wc w)
       \<and> (\<forall>p. count_list (provisionings (acts w')) p
               = (if p < length (heap w') \<and> ready (heap w' ! p) then 1 else 0))"
proof -
  have i: "world_inv w" using assms(1) by (rule reachable_inv)
  from steps_inv[OF assms(2) i] have i': "world_inv w'" and k: "resolved_kept w w'" by simp_all
  have same: "heap w' ! p = heap w ! p" if "p < length (heap w)" "ready (heap w ! p)" for p
    using k that by (simp add: resolved_kept_def)
  have len: "length (heap w) \<le> length (heap w')"
    using k by (simp add: resolved_kept_def)
  have c: "count_list (provisionings (acts w)) p = 1" if "p < length (heap w)" "ready (heap w ! p)" for p
    using i that by (simp add: world_inv_def)
  have c': "count_list (provisionings (acts w')) p
               = (if p < length (heap w') \<and> ready (heap w' ! p) then 1 else 0)" for p
    using i' by (simp add: world_inv_def)
  have c1: "count_list (provisionings (acts w')) p = 1" if "p < length (heap w)" "ready (heap w ! p)" for p
    using c'[of p] same[OF that] that len by simp
  have wr: "waitReady wc w' = waitReady wc w"
    if "\<forall>p \<in> set (pending wc). p < length (heap w) \<and> ready (heap w ! p)" for wc
    unfolding waitReady_def using that same by (intro waitReady_loop_cong) simp
  from same c c1 wr c' show ?thesis by blast
qed

lemma newEvent_example_world: "newEvent env d example_world = (None, example_world)"
  by (simp add: newEvent_disabled example_world_def dummy_WorldLog_def)

lemma example_world_fields:
  "name example_world = ''T''" "cn example_world = ''net''" "heap example_world = []"
  "goroutines example_world = []" "acts example_world = []"
  "worldLog example_world = dummy_WorldLog" "containerKinds example_world = Map.empty"
  by (simp_all add: example_world_def)

lemma example_goroutines:
  "goroutines (snd (NewContainer example_spec example_world)) ! 0
     = new_goroutine example_spec ''alpine'' ''T-alpine-1'' 3 ''net'' 0 0"
  "length (goroutines (snd (NewContainer example_spec example_world))) = 3"
  "heap (snd (NewContainer example_spec example_world))
     = [new_pc ''T-alpine-1'' 3 0, new_pc ''T-alpine-1'' 3 1, new_pc ''T-alpine-1'' 3 2]"
  "enabled (worldLog (snd (NewContainer example_spec example_world))) = False"
proof -
  have r: "max (Replicas example_spec) 1 = 3" by (simp add: example_spec_def)
  have g: "group_name example_world example_spec = ''T-alpine-1''"
    by (simp add: group_name_def spec_kind_example itoa_small example_world_fields kind_count_def)
  have z: "(0::nat) < nat (max (Replicas example_spec) 1)" by (simp add: r)
  from NewContainer_member(3)[OF z, of example_world]
  show "goroutines (snd (NewContainer example_spec example_world)) ! 0
     = new_goroutine example_spec ''alpine'' ''T-alpine-1'' 3 ''net'' 0 0"
    by (simp add: r g spec_kind_example example_world_fields)
  show "length (goroutines (snd (NewContainer example_spec example_world))) = 3"
    by (simp add: NewContainer_eq Let_def r example_world_fields)
  show "heap (snd (NewContainer example_spec example_world))
     = [new_pc ''T-alpine-1'' 3 0, new_pc ''T-alpine-1'' 3 1, new_pc ''T-alpine-1'' 3 2]"
    using upt_3[of 0] by (simp add: NewContainer_parts(1) r g example_world_fields numeral_2_eq_2)
  show "enabled (worldLog (snd (NewContainer example_spec example_world))) = False"
    by (simp add: NewContainer_parts(4) example_world_fields dummy_WorldLog_def)
qed

lemma createFn_begin_example:
  "createFn_begin example_env 0 (snd (NewContainer example_spec example_world))
     = (snd (NewContainer example_spec example_world))
         \<lparr>goroutines := (goroutines (snd (NewContainer example_spec example_world)))
            [0 := (new_goroutine example_spec ''alpine'' ''T-alpine-1'' 3 ''net'' 0 0)
                    \<lparr>g_progress := Running None\<rparr>]\<rparr>"
  by (simp add: createFn_begin_def newEvent_disabled example_goroutines)

lemma first_resolved_heap:
  "heap first_resolved_world
     = [\<lparr>pc_name = ''T-alpine-1-1'', ready = True, container = Some 12, err = None\<rparr>,
        new_pc ''T-alpine-1'' 3 1, new_pc ''T-alpine-1'' 3 2]"
  unfolding first_resolved_world_def createFn_begin_example
  by (simp add: createFn_end_def Let_def example_goroutines new_goroutine_def
      toGenericContainerRequest_def replicaName_def itoa_small example_env_def Event_finish_def
      act_def new_pc_def)

lemma first_resolved_reachable: "reachable example_env first_resolved_world"
proof -
  have 0: "reachable example_env example_world"
    using New_example by (rule reachable.start)
  have 1: "reachable example_env (snd (NewContainer example_spec example_world))"
    using 0 step.call_NewContainer by (rule reachable.next_step)
  have "step example_env (snd (NewContainer example_spec example_world))
          (createFn_begin example_env 0 (snd (NewContainer example_spec example_world)))"
    by (rule step.go_begin) (simp_all add: example_goroutines new_goroutine_def)
  with 1 have 2: "reachable example_env (createFn_begin example_env 0 (snd (NewContainer example_spec example_world)))"
    by (rule reachable.next_step)
  have "step example_env (createFn_begin example_env 0 (snd (NewContainer example_spec example_world)))
          first_resolved_world"
    unfolding first_resolved_world_def
    by (rule step.go_end[where ev = None]) (simp_all add: createFn_begin_example example_goroutines)
  with 2 show ?thesis
    by (rule reachable.next_step)
qed

theorem resolved_once_and_for_all_witness:
  "reachable example_env first_resolved_world
   \<and> (step example_env)\<^sup>*\<^sup>* first_resolved_world (snd (NewContainer example_spec first_resolved_world))
   \<and> ready (heap first_resolved_world ! 0)
   \<and> heap (snd (NewContainer example_spec first_resolved_world)) ! 0
       = \<lparr>pc_name = ''T-alpine-1-1'', ready = True, container = Some 12, err = None\<rparr>
   \<and> count_list (provisionings (acts (snd (NewContainer example_spec first_resolved_world)))) 0 = 1
   \<and> count_list (provisionings (acts (snd (NewContainer example_spec first_resolved_world)))) 1 = 0"
proof -
  have s: "(step example_env)\<^sup>*\<^sup>* first_resolved_world (snd (NewContainer example_spec first_resolved_world))"
    using step.call_NewContainer by (rule r_into_rtranclp)
  note t = resolved_once_and_for_all[OF first_resolved_reachable s]
  have r: "0 < length (heap first_resolved_world)" "ready (heap first_resolved_world ! 0)"
    by (simp_all add: first_resolved_heap)
  have h1: "\<not> ready (heap (snd (NewContainer example_spec first_resolved_world)) ! 1)"
    by (simp add: NewContainer_parts(1) first_resolved_heap nth_append new_pc_def)
  from t r have "heap (snd (NewContainer example_spec first_resolved_world)) ! 0 = heap first_resolved_world ! 0
      \<and> count_list (provisionings (acts (snd (NewContainer example_spec first_resolved_world)))) 0 = 1"
    by blast
  moreover from t h1 have "count_list (provisionings (acts (snd (NewContainer example_spec first_resolved_world)))) 1 = 0"
    by simp
  ultimately show ?thesis
    using first_resolved_reachable s r by (simp add: first_resolved_heap)
qed

lemma sint_of_nat_64: "i < 2 ^ 63 \<Longrightarrow> sint (of_nat i :: 64 word) = int i"
proof -
  assume i: "i < 2 ^ 63"
  have "sint (of_nat i :: 64 word) = sint (word_of_int (int i) :: 64 word)" by simp
  also have "\<dots> = signed_take_bit (LENGTH(64) - 1) (int i)" by (rule sint_sbintrunc')
  also have "\<dots> = int i"
    using i by (intro signed_take_bit_int_eq_self) simp_all
  finally show ?thesis .
qed

lemma of_nat_64_inj:
  "i < 2 ^ 64 \<Longrightarrow> j < 2 ^ 64 \<Longrightarrow> (of_nat i :: 64 word) = of_nat j \<Longrightarrow> i = j"
  by (simp add: word_of_nat_eq_iff take_bit_nat_eq_self)

lemma ids_ok_sint:
  assumes "ids_ok el" and "length (events el) \<le> 2 ^ 63"
  shows "map (\<lambda>e. sint (ev_id e)) (events el) = map int [0..<length (events el)]"
proof -
  have "map (\<lambda>e. sint (ev_id e)) (events el) = map sint (map ev_id (events el))"
    by simp
  also have "\<dots> = map sint (map (of_nat :: nat \<Rightarrow> 64 word) [0..<length (events el)])"
    using assms(1) by (simp add: ids_ok_def)
  also have "\<dots> = map int [0..<length (events el)]"
    using assms(2) by (auto simp: sint_of_nat_64)
  finally show ?thesis .
qed

lemma ids_ok_distinct:
  assumes "ids_ok el" and "length (events el) \<le> 2 ^ 63"
  shows "distinct (map ev_id (events el))"
proof -
  have "inj_on (of_nat :: nat \<Rightarrow> 64 word) (set [0..<length (events el)])"
  proof (rule inj_onI)
    fix i j assume "i \<in> set [0..<length (events el)]" "j \<in> set [0..<length (events el)]"
      and e: "(of_nat i :: 64 word) = of_nat j"
    then have "i < 2 ^ 64" "j < 2 ^ 64" using assms(2) by auto
    then show "i = j" using e by (rule of_nat_64_inj)
  qed
  then have "distinct (map (of_nat :: nat \<Rightarrow> 64 word) [0..<length (events el)])"
    by (simp add: distinct_map)
  then show ?thesis
    using assms(1) by (simp add: ids_ok_def)
qed

text \<open>
  C5. In every world a test can reach, with goroutines and calls interleaved in any
  order, the events of the timeline have, in the order of the list, the ids 0, 1, 2 and
  so on up to the number of events, and no two events have the same id; the counter is
  the number of events. (The bound is the largest length a Go slice can have.)
\<close>

theorem event_ids_contiguous:
  assumes "reachable env w" and "length (events (worldLog w)) \<le> 2 ^ 63"
  shows "map (\<lambda>e. sint (ev_id e)) (events (worldLog w)) = map int [0..<length (events (worldLog w))]
       \<and> distinct (map ev_id (events (worldLog w)))
       \<and> eventCounter (worldLog w) = of_nat (length (events (worldLog w)))"
proof -
  have "ids_ok (worldLog w)"
    using reachable_inv[OF assms(1)] by (simp add: world_inv_def)
  then show ?thesis
    using ids_ok_sint[OF _ assms(2)] ids_ok_distinct[OF _ assms(2)] by (simp add: ids_ok_def)
qed

lemma newEvent_enabled_events:
  assumes "enabled (worldLog w)"
  shows "length (events (worldLog (snd (newEvent env d w)))) = Suc (length (events (worldLog w)))"
    and "enabled (worldLog (snd (newEvent env d w)))"
  using assms
  by (simp_all add: newEvent_def Let_def time_Now_def newEvent_locked_def t_Log_def act_def
      split: prod.splits)

lemma Event_finish_events:
  "length (events (worldLog (Event_finish env ev w))) = length (events (worldLog w))"
  "enabled (worldLog (Event_finish env ev w)) = enabled (worldLog w)"
  by (cases ev; simp add: Event_finish_def Let_def time_Now_def t_Log_def act_def split: prod.splits)+

lemma New_logged:
  "\<exists>w. New example_env ''T'' ''logs'' = Inr w \<and> enabled (worldLog w)
        \<and> length (events (worldLog w)) = 1"
proof -
  obtain ev w1 where ne: "newEvent example_env ''World: Create'' (init_world example_env ''T'' ''logs'') = (ev, w1)"
    by (cases "newEvent example_env ''World: Create'' (init_world example_env ''T'' ''logs'')")
  have e0: "enabled (worldLog (init_world example_env ''T'' ''logs''))"
    by (simp add: init_world_facts(6) example_env_def)
  have "length (events (worldLog w1)) = 1" "enabled (worldLog w1)"
    using newEvent_enabled_events[OF e0, of example_env "''World: Create''"] ne
    by (simp_all add: init_world_facts(8))
  then have "length (events (worldLog (Event_finish example_env ev (w1\<lparr>cn := ''net''\<rparr>)))) = 1"
    "enabled (worldLog (Event_finish example_env ev (w1\<lparr>cn := ''net''\<rparr>)))"
    by (simp_all add: Event_finish_events)
  moreover have "New example_env ''T'' ''logs'' = Inr (Event_finish example_env ev (w1\<lparr>cn := ''net''\<rparr>))"
    using ne by (simp add: New_eq) (simp add: example_env_def)
  ultimately show ?thesis by blast
qed

lemma logged_world_facts:
  "reachable example_env logged_world" "length (events (worldLog logged_world)) = 2"
proof -
  from New_logged obtain w where n: "New example_env ''T'' ''logs'' = Inr w"
    and e: "enabled (worldLog w)" and l: "length (events (worldLog w)) = 1"
    by blast
  have lw: "logged_world = snd (newEvent example_env ''T-alpine-1: exec true'' w)"
    by (simp add: logged_world_def n)
  have "reachable example_env w" using n by (rule reachable.start)
  then show "reachable example_env logged_world"
    unfolding lw using step.call_newEvent by (rule reachable.next_step)
  show "length (events (worldLog logged_world))  = 2"
    unfolding lw using newEvent_enabled_events(1)[OF e] l by simp
qed

theorem event_ids_contiguous_witness:
  "reachable example_env logged_world
   \<and> length (events (worldLog logged_world)) \<le> 2 ^ 63
   \<and> map (\<lambda>e. sint (ev_id e)) (events (worldLog logged_world)) = [0, 1]
   \<and> distinct (map ev_id (events (worldLog logged_world)))"
proof -
  have l: "length (events (worldLog logged_world)) \<le> 2 ^ 63"
    by (simp add: logged_world_facts(2))
  have u: "[0..<2] = [0, Suc 0]" by (simp add: numeral_2_eq_2)
  from event_ids_contiguous[OF logged_world_facts(1) l] l logged_world_facts(1)
  show ?thesis
    by (simp add: logged_world_facts(2) u)
qed

lemma newEvent_enabled:
  assumes "enabled (worldLog w)" and "os_Create_ok env (''event_'' @ fmt03d (sint (eventCounter (worldLog w))) @ ''.log'')"
  shows "fst (newEvent env d w) = Some (length (events (worldLog w)))"
    and "ticks (snd (newEvent env d w)) = Suc (ticks w)"
    and "map ev_startTime (events (worldLog (snd (newEvent env d w))))
           = map ev_startTime (events (worldLog w)) @ [clock env (ticks w)]"
    and "map ev_finishTime (events (worldLog (snd (newEvent env d w))))
           = map ev_finishTime (events (worldLog w)) @ [None]"
    and "startTime (worldLog (snd (newEvent env d w))) = startTime (worldLog w)"
    and "finishTime (worldLog (snd (newEvent env d w))) = finishTime (worldLog w)"
  using assms
  by (simp_all add: newEvent_def Let_def time_Now_def newEvent_locked_def t_Log_def act_def)

lemma Event_finish_times:
  assumes "p < length (events (worldLog w))"
  shows "ticks (Event_finish env (Some p) w) = Suc (ticks w)"
    and "map ev_startTime (events (worldLog (Event_finish env (Some p) w)))
           = map ev_startTime (events (worldLog w))"
    and "map ev_finishTime (events (worldLog (Event_finish env (Some p) w)))
           = (map ev_finishTime (events (worldLog w)))[p := Some (clock env (ticks w))]"
    and "startTime (worldLog (Event_finish env (Some p) w)) = startTime (worldLog w)"
    and "finishTime (worldLog (Event_finish env (Some p) w)) = finishTime (worldLog w)"
    and "enabled (worldLog (Event_finish env (Some p) w)) = enabled (worldLog w)"
  using assms
  by (simp_all add: Event_finish_def Let_def time_Now_def t_Log_def act_def map_update
      list_update_same_conv)

lemma WorldLog_finish_times:
  assumes "enabled (worldLog w)"
  shows "finishTime (worldLog (snd (WorldLog_finish env w))) = clock env (ticks w)"
    and "startTime (worldLog (snd (WorldLog_finish env w))) = startTime (worldLog w)"
    and "events (worldLog (snd (WorldLog_finish env w))) = events (worldLog w)"
  using assms
  by (simp_all add: WorldLog_finish_def Let_def time_Now_def t_Log_def act_def printGantt_frame
      split: prod.splits option.splits)

text \<open>
  C6, as amended. When the timeline is finalised, the total span it computes is the time
  \<open>WorldLog.finish\<close> reads from the clock minus the time \<open>NewWorldLog\<close> read when \<open>New\<close>
  created the timeline (the first reading of the clock), in seconds.
\<close>

theorem totalDuration_finish_minus_creation:
  assumes "New env tname logPath = Inr w0" and "(step env)\<^sup>*\<^sup>* w0 w" and "enabled (worldLog w)"
  shows "totalDuration (worldLog (snd (WorldLog_finish env w)))
           = Seconds (Sub (clock env (ticks w)) (clock env 0))
       \<and> startTime (worldLog w) = clock env 0"
proof -
  have g: "grows (worldLog w0) (worldLog w)"
    using steps_advance[OF assms(2)] by (simp add: advance_def)
  then have "enabled (worldLog w0)" using assms(3) by (simp add: grows_def)
  then have "startTime (worldLog w0) = clock env 0"
    using New_facts(7)[OF assms(1)] by simp
  then have s: "startTime (worldLog w) = clock env 0"
    using g by (simp add: grows_def)
  show ?thesis
    using s by (simp add: totalDuration_def WorldLog_finish_times[OF assms(3)])
qed

theorem totalDuration_finish_minus_creation_witness:
  "\<exists>w. New example_env ''T'' ''logs'' = Inr w \<and> (step example_env)\<^sup>*\<^sup>* w w \<and> enabled (worldLog w)
      \<and> totalDuration (worldLog (snd (WorldLog_finish example_env w)))
           = Seconds (Sub (clock example_env (ticks w)) (clock example_env 0))"
proof -
  from New_logged obtain w where n: "New example_env ''T'' ''logs'' = Inr w" and e: "enabled (worldLog w)"
    by blast
  have s: "(step example_env)\<^sup>*\<^sup>* w w" by simp
  from totalDuration_finish_minus_creation[OF n s e] n s e show ?thesis by blast
qed

lemma example_env_fields:
  "clock example_env n = int n * 1000000000" "os_Create_ok example_env f"
  "NewWorldLog_err example_env = None" "network_New example_env = Inr ''net''"
  "\<not> testing_Short example_env" "ReadDir_ok example_env" "Open_ok example_env f" "Copy_ok example_env f"
  by (simp_all add: example_env_def)

lemma init_world_logged:
  "ticks (init_world example_env ''T'' ''logs'') = 1"
  "finishTime (worldLog (init_world example_env ''T'' ''logs'')) = 0"
  "startTime (worldLog (init_world example_env ''T'' ''logs'')) = 0"
  "enabled (worldLog (init_world example_env ''T'' ''logs''))"
  "events (worldLog (init_world example_env ''T'' ''logs'')) = []"
  "containers (init_world example_env ''T'' ''logs'') = Map.empty"
  by (simp_all add: init_world_def NewWorldLog_def time_Now_def example_env_fields Let_def)

lemma newEvent_pair: "newEvent env d w = (fst (newEvent env d w), snd (newEvent env d w))"
  by simp

lemma finished_world_times:
  "startTime (worldLog finished_world) = 0"
  "finishTime (worldLog finished_world) = 5000000000"
  "map ev_startTime (events (worldLog finished_world)) = [1000000000, 3000000000]"
  "map ev_finishTime (events (worldLog finished_world)) = [Some 2000000000, Some 4000000000]"
proof -
  define w0 where "w0 = init_world example_env ''T'' ''logs''"
  define w1 where "w1 = snd (newEvent example_env ''World: Create'' w0)"
  define w2 where "w2 = Event_finish example_env (Some 0) (w1\<lparr>cn := ''net''\<rparr>)"
  define w3 where "w3 = snd (newEvent example_env ''World: destroy'' w2)"
  define w4 where "w4 = Event_finish example_env (Some (Suc 0)) w3"
  define w5 where "w5 = snd (WorldLog_finish example_env (act Call_WorldLog_finish w4))"
  note i = init_world_logged[folded w0_def]
  have e0: "enabled (worldLog w0)" by (rule i)
  note n1 = newEvent_enabled[OF e0, of example_env "''World: Create''", folded w1_def, OF example_env_fields(2)]
  have f1: "fst (newEvent example_env ''World: Create'' w0) = Some 0"
    using n1(1) by (simp add: i)
  have t1: "ticks w1 = 2" "map ev_startTime (events (worldLog w1)) = [1000000000]"
    "map ev_finishTime (events (worldLog w1)) = [None]" "startTime (worldLog w1) = 0"
    "finishTime (worldLog w1) = 0"
    using n1 by (simp_all add: i example_env_fields)
  have e1: "enabled (worldLog w1)"
    unfolding w1_def by (rule newEvent_enabled_events(2)[OF e0])
  have l1: "0 < length (events (worldLog (w1\<lparr>cn := ''net''\<rparr>)))"
    using t1(2) by (cases "events (worldLog w1)") simp_all
  note f2 = Event_finish_times[OF l1, of example_env, folded w2_def]
  have t2: "ticks w2 = 3" "map ev_startTime (events (worldLog w2)) = [1000000000]"
    "map ev_finishTime (events (worldLog w2)) = [Some 2000000000]" "startTime (worldLog w2) = 0"
    "finishTime (worldLog w2) = 0" "enabled (worldLog w2)"
    using f2 t1 e1 by (simp_all add: example_env_fields)
  have new: "New example_env ''T'' ''logs'' = Inr w2"
    unfolding New_eq w0_def[symmetric]
    by (subst newEvent_pair) (simp add: f1 w1_def[symmetric] w2_def example_env_fields)
  have c2: "containers w2 = Map.empty"
    using New_facts(5)[OF new] .
  have len2: "length (events (worldLog w2)) = 1"
    using t2(2) by (metis length_map length_Cons list.size(3) One_nat_def)
  note n3 = newEvent_enabled[OF t2(6), of example_env "''World: destroy''", folded w3_def, OF example_env_fields(2)]
  have f3: "fst (newEvent example_env ''World: destroy'' w2) = Some (Suc 0)"
    using n3(1) by (simp add: len2)
  have t3: "ticks w3 = 4" "map ev_startTime (events (worldLog w3)) = [1000000000, 3000000000]"
    "map ev_finishTime (events (worldLog w3)) = [Some 2000000000, None]" "startTime (worldLog w3) = 0"
    using n3 t2 by (simp_all add: example_env_fields)
  have e3: "enabled (worldLog w3)"
    unfolding w3_def by (rule newEvent_enabled_events(2)[OF t2(6)])
  have l3: "Suc 0 < length (events (worldLog w3))"
    using t3(2) by (metis length_map length_Cons list.size(3) One_nat_def lessI)
  note f4 = Event_finish_times[OF l3, of example_env, folded w4_def]
  have t4: "ticks w4 = 5" "map ev_startTime (events (worldLog w4)) = [1000000000, 3000000000]"
    "map ev_finishTime (events (worldLog w4)) = [Some 2000000000, Some 4000000000]"
    "startTime (worldLog w4) = 0" "enabled (worldLog w4)"
    using f4 t3 e3 by (simp_all add: example_env_fields)
  have e4: "enabled (worldLog (act Call_WorldLog_finish w4))"
    using t4(5) by (simp add: act_def)
  note f5 = WorldLog_finish_times[OF e4, of example_env, folded w5_def]
  have t5: "finishTime (worldLog w5) = 5000000000" "startTime (worldLog w5) = 0"
    "map ev_startTime (events (worldLog w5)) = [1000000000, 3000000000]"
    "map ev_finishTime (events (worldLog w5)) = [Some 2000000000, Some 4000000000]"
    using f5 t4 by (simp_all add: example_env_fields act_def)
  have "Destroy example_env [] w2 = Returns w5"
    unfolding Destroy_def
    by (subst newEvent_pair) (simp add: f3 w3_def[symmetric] w4_def[symmetric] w5_def)
  then have "finished_world = w5"
    by (simp add: finished_world_def new)
  with t5 show "startTime (worldLog finished_world) = 0"
    "finishTime (worldLog finished_world) = 5000000000"
    "map ev_startTime (events (worldLog finished_world)) = [1000000000, 3000000000]"
    "map ev_finishTime (events (worldLog finished_world)) = [Some 2000000000, Some 4000000000]"
    by simp_all
qed

lemma Seconds_5: "Seconds 5000000000 = 5"
  by code_simp

lemma Seconds_3: "Seconds 3000000000 = 3"
  by code_simp

text \<open>
  C6 as stated fails. In the run \<open>finished_world\<close> the clock is read at the seconds 0 to
  5: the timeline is created at 0, the first event starts at 1, the last event finishes
  at 4 and the timeline is finalised at 5. The total span computed is 5 seconds; the last
  finish minus the first start is 3 seconds.
\<close>

theorem totalDuration_not_event_span:
  "totalDuration (worldLog finished_world) = 5
   \<and> Seconds (claimed_span (worldLog finished_world)) = 3
   \<and> totalDuration (worldLog finished_world) \<noteq> Seconds (claimed_span (worldLog finished_world))"
proof -
  have 1: "totalDuration (worldLog finished_world) = 5"
    by (simp add: totalDuration_def finished_world_times Sub_def Seconds_5)
  have "claimed_span (worldLog finished_world) = 3000000000"
    by (simp add: claimed_span_def finish_times_def finished_world_times Sub_def)
  then have 2: "Seconds (claimed_span (worldLog finished_world)) = 3"
    by (simp add: Seconds_3)
  from 1 2 show ?thesis by simp
qed

lemma Sub_self: "Sub t t = 0"
  by (simp add: Sub_def)

lemma Seconds_0: "Seconds 0 = 0"
  by code_simp

lemma float64_consts: "float64 0 = 0" "float64 1 = 1" "float64 80 = 80" "float64 40 = 40"
  "float64 (1 / 2) = 1 / 2"
  by code_simp+

lemma trunc_consts: "trunc 0 = 0" "trunc 80 = 80" "trunc 40 = 40"
  by (simp_all add: trunc_def)

lemma scale_zero: "trunc (fmul (fdiv 0 x) timelineWidth) = 0"
  by (simp add: fdiv_def fmul_def float64_consts trunc_consts)

lemma scale_whole: "x \<noteq> 0 \<Longrightarrow> trunc (fmul (fdiv x x) timelineWidth) = 80"
  by (simp add: fdiv_def fmul_def float64_consts trunc_consts timelineWidth_def)

lemma concat_logs_prefix: "prefix out (snd (concat_logs env dir fs out))"
proof (induction fs arbitrary: out)
  case Nil
  show ?case by simp
next
  case (Cons f fs)
  from Cons[of "out @ file_get dir f"] have "prefix out (snd (concat_logs env dir fs (out @ file_get dir f)))"
    by (rule append_prefixD)
  then show ?case by simp
qed

lemma WorldLog_finish_prefix:
  assumes "enabled (worldLog w)"
  shows "prefix (combinedLog (printGantt ((worldLog w)\<lparr>finishTime := clock env (ticks w)\<rparr>)))
           (combinedLog (worldLog (snd (WorldLog_finish env w))))"
proof -
  define el where "el = printGantt ((worldLog w)\<lparr>finishTime := clock env (ticks w)\<rparr>)"
  define out0 where "out0 = combinedLog el @ nl @ nl @ ''Event Logs:'' @ nl"
  show ?thesis
  proof (cases "ReadDir_ok env")
    case False
    with assms have "combinedLog (worldLog (snd (WorldLog_finish env w))) = out0"
      by (simp add: WorldLog_finish_def Let_def time_Now_def out0_def el_def)
    then show ?thesis
      by (simp add: out0_def el_def)
  next
    case True
    define r where "r = concat_logs env (eventsDir el) (ReadDir (eventsDir el)) out0"
    from True assms have "combinedLog (worldLog (snd (WorldLog_finish env w))) = snd r"
      unfolding r_def out0_def
      by (simp add: WorldLog_finish_def Let_def time_Now_def el_def[symmetric]
          t_Log_def act_def case_prod_beta split: option.splits)
    moreover have "prefix out0 (snd r)"
      unfolding r_def by (rule concat_logs_prefix)
    then have "prefix (combinedLog el) (snd r)"
      unfolding out0_def by (rule append_prefixD)
    ultimately show ?thesis
      by (simp add: el_def)
  qed
qed

text \<open>
  C8. Let the total span of the timeline \<open>el\<close> be positive. \<open>printGantt\<close> appends to the
  combined log the three lines of the heading and then, for each event in the order of
  creation, one line; when \<open>el\<close> is the timeline of a world at the moment
  \<open>WorldLog.finish\<close> has read the clock, the combined log that \<open>WorldLog.finish\<close> leaves
  begins with what \<open>printGantt\<close> has written. The line of an event is the id in three
  digits, \<open>" |"\<close>, the padding, the bar in brackets, the duration with three decimals in
  parentheses and the description; the padding has \<open>startPos\<close> blanks and the bar
  \<open>barLen\<close> marks, where \<open>startPos\<close> is the start offset divided by the total span, times
  80, truncated and raised to 0 if negative, and \<open>barLen\<close> is the duration divided by the
  total span, times 80, truncated and raised to 1 if less (the operations are those of
  \<open>float64\<close>); the duration runs to the finalisation time for an event that was never
  finished. An event that spans the whole timeline has no padding and a bar of 80
  marks; an event of no duration has a bar of one mark.
\<close>

theorem gantt_line_rendering:
  assumes "0 < totalDuration el"
  shows "(enabled el \<longrightarrow>
            combinedLog (printGantt el)
              = combinedLog el
                  @ ''Event Timeline (Total: '' @ fmt3f (totalDuration el) @ ''s):'' @ nl
                  @ ''ID  | Process Visualization'' @ nl
                  @ ''----|'' @ replicate 80 CHR ''-'' @ nl
                  @ concat (map (gantt_line el) (events el)))
       \<and> (enabled (worldLog w) \<longrightarrow> el = (worldLog w)\<lparr>finishTime := clock env (ticks w)\<rparr> \<longrightarrow>
            prefix (combinedLog (printGantt el))
                   (combinedLog (worldLog (snd (WorldLog_finish env w)))))
       \<and> gantt_line el e
           = fmt03d (sint (ev_id e)) @ '' |'' @ replicate (nat (startPos el e)) CHR '' ''
               @ ''['' @ replicate (nat (barLen el e)) CHR ''#'' @ ''] (''
               @ fmt3f (duration el e) @ ''s) '' @ description e @ nl
       \<and> startPos el e
           = max (trunc (fmul (fdiv (Seconds (Sub (ev_startTime e) (startTime el)))
                                    (totalDuration el)) 80)) 0
       \<and> barLen el e = max (trunc (fmul (fdiv (duration el e) (totalDuration el)) 80)) 1
       \<and> duration el e
           = Seconds (Sub (case ev_finishTime e of None \<Rightarrow> finishTime el | Some t \<Rightarrow> t)
                          (ev_startTime e))
       \<and> 0 \<le> startPos el e \<and> 1 \<le> barLen el e
       \<and> (ev_startTime e = startTime el \<longrightarrow> bar_finishTime el e = finishTime el \<longrightarrow>
             startPos el e = 0 \<and> barLen el e = 80
             \<and> length (replicate (nat (barLen el e)) CHR ''#'') = 80)
       \<and> (bar_finishTime el e = ev_startTime e \<longrightarrow>
             barLen el e = 1 \<and> replicate (nat (barLen el e)) CHR ''#'' = ''#'')"
proof -
  have 8: "combinedLog (printGantt el)
              = combinedLog el
                  @ ''Event Timeline (Total: '' @ fmt3f (totalDuration el) @ ''s):'' @ nl
                  @ ''ID  | Process Visualization'' @ nl
                  @ ''----|'' @ replicate 80 CHR ''-'' @ nl
                  @ concat (map (gantt_line el) (events el))"
    if "enabled el"
    using that by (simp add: printGantt_def)
  have 9: "prefix (combinedLog (printGantt el))
                   (combinedLog (worldLog (snd (WorldLog_finish env w))))"
    if "enabled (worldLog w)" and "el = (worldLog w)\<lparr>finishTime := clock env (ticks w)\<rparr>"
    unfolding that(2) using that(1) by (rule WorldLog_finish_prefix)
  have 1: "gantt_line el e
           = fmt03d (sint (ev_id e)) @ '' |'' @ replicate (nat (startPos el e)) CHR '' ''
               @ ''['' @ replicate (nat (barLen el e)) CHR ''#'' @ ''] (''
               @ fmt3f (duration el e) @ ''s) '' @ description e @ nl"
    by (simp add: gantt_line_def Let_def)
  have 2: "startPos el e
           = max (trunc (fmul (fdiv (Seconds (Sub (ev_startTime e) (startTime el)))
                                    (totalDuration el)) 80)) 0"
    by (simp add: startPos_def startOffset_def timelineWidth_def)
  have 3: "barLen el e = max (trunc (fmul (fdiv (duration el e) (totalDuration el)) 80)) 1"
    by (simp add: barLen_def timelineWidth_def)
  have 4: "duration el e
           = Seconds (Sub (case ev_finishTime e of None \<Rightarrow> finishTime el | Some t \<Rightarrow> t)
                          (ev_startTime e))"
    by (simp add: duration_def bar_finishTime_def)
  have 5: "0 \<le> startPos el e" "1 \<le> barLen el e"
    by (simp_all add: startPos_def barLen_def)
  have 6: "startPos el e = 0 \<and> barLen el e = 80
             \<and> length (replicate (nat (barLen el e)) CHR ''#'') = 80"
    if s: "ev_startTime e = startTime el" and f: "bar_finishTime el e = finishTime el"
  proof -
    have "startOffset el e = 0"
      by (simp add: startOffset_def s Sub_self Seconds_0)
    then have a: "startPos el e = 0"
      by (simp add: startPos_def scale_zero)
    have "duration el e = totalDuration el"
      by (simp add: duration_def totalDuration_def s f)
    then have "barLen el e = 80"
      using assms by (simp add: barLen_def scale_whole)
    with a show ?thesis by simp
  qed
  have 7: "barLen el e = 1 \<and> replicate (nat (barLen el e)) CHR ''#'' = ''#''"
    if "bar_finishTime el e = ev_startTime e"
  proof -
    have "duration el e = 0"
      by (simp add: duration_def that Sub_self Seconds_0)
    then have "barLen el e = 1"
      by (simp add: barLen_def scale_zero)
    then show ?thesis by simp
  qed
  from 1 2 3 4 5 6 7 8 9 show ?thesis by blast
qed

lemma fmt_consts: "fmt03d 0 = ''000''" "fmt03d 1 = ''001''" "fmt3f 1 = ''1.000''" "fmt3f 0 = ''0.000''"
  by code_simp+

lemma Seconds_consts: "Seconds 1000000000 = 1" "Seconds 500000000 = 1 / 2"
  by code_simp+

lemma gantt_example_fields:
  "startTime gantt_example = 0" "finishTime gantt_example = 1000000000"
  by (simp_all add: gantt_example_def)

lemma gantt_example_total: "totalDuration gantt_example = 1"
  by (simp add: totalDuration_def gantt_example_fields Sub_def Seconds_consts)

lemma gantt_world_fields:
  "enabled gantt_example" "enabled (worldLog gantt_world)" "combinedLog gantt_example = []"
  "events gantt_example = [whole_event, instant_event]"
  "gantt_example = (worldLog gantt_world)\<lparr>finishTime := clock example_env (ticks gantt_world)\<rparr>"
  by (simp_all add: gantt_world_def gantt_example_def example_env_def)

theorem gantt_line_rendering_witness:
  "0 < totalDuration gantt_example
   \<and> enabled gantt_example
   \<and> enabled (worldLog gantt_world)
   \<and> gantt_example = (worldLog gantt_world)\<lparr>finishTime := clock example_env (ticks gantt_world)\<rparr>
   \<and> ev_startTime whole_event = startTime gantt_example
   \<and> bar_finishTime gantt_example whole_event = finishTime gantt_example
   \<and> bar_finishTime gantt_example instant_event = ev_startTime instant_event
   \<and> gantt_line gantt_example whole_event
       = ''000 |['' @ replicate 80 CHR ''#'' @ ''] (1.000s) World: Create'' @ nl
   \<and> gantt_line gantt_example instant_event
       = ''001 |'' @ replicate 40 CHR '' '' @ ''[#] (0.000s) T-alpine-1: wait'' @ nl
   \<and> combinedLog (printGantt gantt_example)
       = ''Event Timeline (Total: 1.000s):'' @ nl
           @ ''ID  | Process Visualization'' @ nl
           @ ''----|'' @ replicate 80 CHR ''-'' @ nl
           @ ''000 |['' @ replicate 80 CHR ''#'' @ ''] (1.000s) World: Create'' @ nl
           @ ''001 |'' @ replicate 40 CHR '' '' @ ''[#] (0.000s) T-alpine-1: wait'' @ nl
   \<and> prefix (combinedLog (printGantt gantt_example))
          (combinedLog (worldLog (snd (WorldLog_finish example_env gantt_world))))"
proof -
  have p: "0 < totalDuration gantt_example"
    by (simp add: gantt_example_total)
  have h: "ev_startTime whole_event = startTime gantt_example"
    "bar_finishTime gantt_example whole_event = finishTime gantt_example"
    "bar_finishTime gantt_example instant_event = ev_startTime instant_event"
    by (simp_all add: whole_event_def instant_event_def gantt_example_fields bar_finishTime_def)
  note g = gantt_world_fields
  note tw = gantt_line_rendering[OF p, of gantt_world example_env whole_event]
  note ti = gantt_line_rendering[OF p, of gantt_world example_env instant_event]
  have "duration gantt_example whole_event
           = Seconds (Sub (case ev_finishTime whole_event of None \<Rightarrow> finishTime gantt_example | Some t \<Rightarrow> t)
                          (ev_startTime whole_event))"
    using tw by blast
  then have dw: "duration gantt_example whole_event = 1"
    by (simp add: whole_event_def gantt_example_fields Sub_def Seconds_consts)
  have "duration gantt_example instant_event
           = Seconds (Sub (case ev_finishTime instant_event of None \<Rightarrow> finishTime gantt_example | Some t \<Rightarrow> t)
                          (ev_startTime instant_event))"
    using ti by blast
  then have di: "duration gantt_example instant_event = 0"
    by (simp add: instant_event_def Sub_def Seconds_0)
  have pw: "startPos gantt_example whole_event = 0 \<and> barLen gantt_example whole_event = 80"
    using tw h by blast
  have bi: "barLen gantt_example instant_event = 1"
    using ti h by blast
  have "startPos gantt_example instant_event
           = max (trunc (fmul (fdiv (Seconds (Sub (ev_startTime instant_event) (startTime gantt_example)))
                                    (totalDuration gantt_example)) 80)) 0"
    using ti by blast
  then have si: "startPos gantt_example instant_event = 40"
    by (simp add: instant_event_def gantt_example_total Sub_def Seconds_consts fdiv_def fmul_def
        float64_consts trunc_consts gantt_example_fields)
  have "gantt_line gantt_example whole_event
           = fmt03d (sint (ev_id whole_event)) @ '' |'' @ replicate (nat (startPos gantt_example whole_event)) CHR '' ''
               @ ''['' @ replicate (nat (barLen gantt_example whole_event)) CHR ''#'' @ ''] (''
               @ fmt3f (duration gantt_example whole_event) @ ''s) '' @ description whole_event @ nl"
    using tw by blast
  then have lw: "gantt_line gantt_example whole_event
       = ''000 |['' @ replicate 80 CHR ''#'' @ ''] (1.000s) World: Create'' @ nl"
    by (simp add: pw dw) (simp add: whole_event_def fmt_consts)
  have "gantt_line gantt_example instant_event
           = fmt03d (sint (ev_id instant_event)) @ '' |'' @ replicate (nat (startPos gantt_example instant_event)) CHR '' ''
               @ ''['' @ replicate (nat (barLen gantt_example instant_event)) CHR ''#'' @ ''] (''
               @ fmt3f (duration gantt_example instant_event) @ ''s) '' @ description instant_event @ nl"
    using ti by blast
  then have li: "gantt_line gantt_example instant_event
       = ''001 |'' @ replicate 40 CHR '' '' @ ''[#] (0.000s) T-alpine-1: wait'' @ nl"
    by (simp add: si bi di) (simp add: instant_event_def fmt_consts)
  have "combinedLog (printGantt gantt_example)
              = combinedLog gantt_example
                  @ ''Event Timeline (Total: '' @ fmt3f (totalDuration gantt_example) @ ''s):'' @ nl
                  @ ''ID  | Process Visualization'' @ nl
                  @ ''----|'' @ replicate 80 CHR ''-'' @ nl
                  @ concat (map (gantt_line gantt_example) (events gantt_example))"
    using tw g(1) by blast
  then have c: "combinedLog (printGantt gantt_example)
       = ''Event Timeline (Total: 1.000s):'' @ nl
           @ ''ID  | Process Visualization'' @ nl
           @ ''----|'' @ replicate 80 CHR ''-'' @ nl
           @ ''000 |['' @ replicate 80 CHR ''#'' @ ''] (1.000s) World: Create'' @ nl
           @ ''001 |'' @ replicate 40 CHR '' '' @ ''[#] (0.000s) T-alpine-1: wait'' @ nl"
    by (simp add: g(3,4) gantt_example_total fmt_consts lw li)
  have f: "prefix (combinedLog (printGantt gantt_example))
          (combinedLog (worldLog (snd (WorldLog_finish example_env gantt_world))))"
    using tw g(2,5) by blast
  from p g(1,2,5) h lw li c f show ?thesis by blast
qed

lemma file_put_names: "fst ` set (file_put n c fs) = insert n (fst ` set fs)"
proof (induction fs)
  case Nil
  then show ?case by simp
next
  case (Cons x fs)
  obtain m d where x: "x = (m, d)" by (cases x)
  show ?case
  proof (cases "m = n")
    case True
    then show ?thesis by (simp add: x)
  next
    case False
    then show ?thesis using Cons.IH by (simp add: x insert_commute)
  qed
qed

lemma Fprintln_names: "fst ` set (Fprintln n l fs) = insert n (fst ` set fs)"
  by (simp add: Fprintln_def file_append_def file_put_names)

lemma os_Create_names: "fst ` set (os_Create n fs) = insert n (fst ` set fs)"
  by (simp add: os_Create_def file_put_names)

lemma newEvent_files_ok:
  assumes "files_ok w" and "length (events (worldLog w)) < 2 ^ 63" and "\<And>f. os_Create_ok env f"
  shows "files_ok (snd (newEvent env d w))"
    and "length (events (worldLog (snd (newEvent env d w)))) = Suc (length (events (worldLog w)))"
proof -
  have c0: "sint (eventCounter (worldLog w)) = int (length (events (worldLog w)))"
    using assms(1,2) by (simp add: files_ok_def ids_ok_def sint_of_nat_64)
  have e: "enabled (worldLog w)" and i: "ids_ok (worldLog w)"
    and f: "\<forall>i < length (events (worldLog w)). event_file (int i) \<in> set (map fst (eventsDir (worldLog w)))"
    and m: "map log (events (worldLog w))
       = map (\<lambda>i. Some (event_file (int i))) [0..<length (events (worldLog w))]"
    using assms(1) by (simp_all add: files_ok_def)
  have "map log (events (worldLog (snd (newEvent env d w))))
      = map log (events (worldLog w)) @ [Some (event_file (int (length (events (worldLog w)))))]"
    using e assms(3) c0
    by (simp add: newEvent_def Let_def time_Now_def newEvent_locked_def t_Log_def act_def
        event_file_def)
  then have m': "map log (events (worldLog (snd (newEvent env d w))))
      = map (\<lambda>i. Some (event_file (int i))) [0..<Suc (length (events (worldLog w)))]"
    by (simp add: m)
  have c: "sint (eventCounter (worldLog w)) = int (length (events (worldLog w)))"
    using c0 .
  have d: "set (map fst (eventsDir (worldLog (snd (newEvent env d w)))))
      = insert (event_file (int (length (events (worldLog w))))) (set (map fst (eventsDir (worldLog w))))"
    using e assms(3) c
    by (simp add: newEvent_def Let_def time_Now_def newEvent_locked_def t_Log_def act_def
        Fprintln_names os_Create_names event_file_def)
  show l: "length (events (worldLog (snd (newEvent env d w)))) = Suc (length (events (worldLog w)))"
    using e by (rule newEvent_enabled_events(1))
  have "ids_ok (worldLog (snd (newEvent env d w)))"
    using newEvent_frame(1)[OF newEvent_pair[of env d w]] i by (simp add: same_state_def grows_def)
  moreover have "enabled (worldLog (snd (newEvent env d w)))"
    using e by (rule newEvent_enabled_events(2))
  moreover have "\<forall>i < Suc (length (events (worldLog w))).
      event_file (int i) \<in> set (map fst (eventsDir (worldLog (snd (newEvent env d w)))))"
    unfolding d using f by (auto simp: less_Suc_eq)
  ultimately show "files_ok (snd (newEvent env d w))"
    using m' by (simp add: files_ok_def l)
qed

lemma Event_finish_files_ok:
  assumes "files_ok w"
  shows "files_ok (Event_finish env ev w)"
proof (cases ev)
  case None
  then show ?thesis using assms by (simp add: Event_finish_def)
next
  case (Some p)
  have s: "set (map fst (eventsDir (worldLog w))) \<subseteq> set (map fst (eventsDir (worldLog (Event_finish env ev w))))"
    unfolding Some
    by (auto simp: Event_finish_def Let_def time_Now_def t_Log_def act_def Fprintln_names
        split: option.splits)
  have g: "grows (worldLog w) (worldLog (Event_finish env ev w))"
    using Event_finish_frame(1)[where w = w and env = env and ev = ev] by (simp add: same_state_def)
  have m: "map log (events (worldLog (Event_finish env ev w))) = map log (events (worldLog w))"
  proof (cases "p < length (events (worldLog w))")
    case True
    then show ?thesis
      unfolding Some
      by (simp add: Event_finish_def Let_def time_Now_def t_Log_def act_def map_update
          list_update_same_conv)
  next
    case False
    then have "length (events (worldLog w)) \<le> p" by simp
    then show ?thesis
      unfolding Some
      by (simp add: Event_finish_def Let_def time_Now_def t_Log_def act_def list_update_beyond)
  qed
  show ?thesis
    using assms s g m Event_finish_events[where w = w and env = env and ev = ev]
    by (auto simp: files_ok_def grows_def)
qed

lemma create_events_files_ok:
  assumes "files_ok w" and "length (events (worldLog w)) + n < 2 ^ 63" and "\<And>f. os_Create_ok env f"
  shows "files_ok (create_events env n w)
       \<and> length (events (worldLog (create_events env n w))) = length (events (worldLog w)) + n"
  using assms(2)
proof (induction n)
  case 0
  then show ?case using assms(1) by simp
next
  case (Suc n)
  then have ih: "files_ok (create_events env n w)"
    "length (events (worldLog (create_events env n w))) = length (events (worldLog w)) + n"
    by simp_all
  have b: "length (events (worldLog (create_events env n w))) < 2 ^ 63"
    using ih(2) Suc.prems by simp
  from newEvent_files_ok[OF ih(1) b assms(3)] ih(2) show ?case by simp
qed

lemma concat_logs_ok:
  assumes "\<And>f. Open_ok env f" and "\<And>f. Copy_ok env f"
  shows "concat_logs env dir fs out = (None, out @ concat (map (file_get dir) fs))"
  using assms by (induction fs arbitrary: out) simp_all

lemma WorldLog_finish_ok:
  assumes "enabled (worldLog w)" and "ReadDir_ok env" and "\<And>f. Open_ok env f" and "\<And>f. Copy_ok env f"
  shows "eventsDir (worldLog (snd (WorldLog_finish env w))) = eventsDir (worldLog w)"
    and "enabled (worldLog (snd (WorldLog_finish env w)))"
    and "ids_ok (worldLog w) \<Longrightarrow> ids_ok (worldLog (snd (WorldLog_finish env w)))"
    and "suffix (concat (map (file_get (eventsDir (worldLog w))) (ReadDir (eventsDir (worldLog w)))))
           (combinedLog (worldLog (snd (WorldLog_finish env w))))"
  using assms
  by (simp_all add: WorldLog_finish_def Let_def time_Now_def concat_logs_ok t_Log_def act_def
      printGantt_frame ids_ok_def suffix_def)

lemma index_of_sorted:
  fixes a b :: "'a :: linorder"
  assumes "sorted xs" and "a \<in> set xs" and "b \<in> set xs" and "a < b"
  shows "index_of a xs < index_of b xs"
  using assms
proof (induction xs)
  case Nil
  then show ?case by simp
next
  case (Cons y ys)
  show ?case
  proof (cases "a = y")
    case True
    with Cons.prems(4) show ?thesis by auto
  next
    case False
    then have a: "a \<in> set ys" using Cons.prems(2) by simp
    then have "y \<le> a" using Cons.prems(1) by simp
    then have bny: "b \<noteq> y" using Cons.prems(4) by auto
    then have "b \<in> set ys" using Cons.prems(3) by simp
    with Cons.IH a Cons.prems(1,4) have "index_of a ys < index_of b ys" by simp
    with False bny show ?thesis by auto
  qed
qed

lemma event_file_consts:
  "event_file 1000 = ''event_1000.log''" "event_file 101 = ''event_101.log''"
  by (simp_all add: event_file_def fmt03d_def zero_pad_def digits10.simps digit_char_def)

lemma overflow_order: "(''event_1000.log'' :: string) < ''event_101.log''"
  by simp

lemma New_files_ok:
  "\<exists>w. New example_env ''T'' ''logs'' = Inr w \<and> files_ok w \<and> length (events (worldLog w)) = 1"
proof -
  define w0 where "w0 = init_world example_env ''T'' ''logs''"
  define w1 where "w1 = snd (newEvent example_env ''World: Create'' w0)"
  define ev where "ev = fst (newEvent example_env ''World: Create'' w0)"
  define w2 where "w2 = Event_finish example_env ev (w1\<lparr>cn := ''net''\<rparr>)"
  note i = init_world_logged[folded w0_def]
  have "ids_ok (worldLog w0)"
    using init_world_facts(1)[of example_env "''T''" "''logs''"]
    by (simp add: w0_def world_inv_def)
  then have f0: "files_ok w0"
    by (simp add: files_ok_def i)
  have l0: "length (events (worldLog w0)) < 2 ^ 63"
    by (simp add: i)
  note n = newEvent_files_ok[OF f0 l0 example_env_fields(2), of "''World: Create''", folded w1_def]
  have "files_ok (w1\<lparr>cn := ''net''\<rparr>)"
    using n(1) by (simp add: files_ok_def)
  then have f2: "files_ok w2"
    unfolding w2_def by (rule Event_finish_files_ok)
  have l2: "length (events (worldLog w2)) = 1"
    unfolding w2_def using n(2) by (simp add: Event_finish_events i)
  have "New example_env ''T'' ''logs'' = Inr w2"
    unfolding New_eq w0_def[symmetric]
    by (subst newEvent_pair) (simp add: ev_def[symmetric] w1_def[symmetric] w2_def example_env_fields)
  with f2 l2 show ?thesis by blast
qed

lemma Destroy_nothing:
  "Destroy env [] w =
     Returns (snd (WorldLog_finish env (act Call_WorldLog_finish
        (Event_finish env (fst (newEvent env ''World: destroy'' w))
           (snd (newEvent env ''World: destroy'' w))))))"
  by (simp add: Destroy_def case_prod_beta)

lemma overflow_world_facts:
  "length (events (worldLog overflow_world)) = 1001"
  "map log (events (worldLog overflow_world))
       = map (\<lambda>i. Some (event_file (int i))) [0..<1001]"
  "\<forall>i < 1001. event_file (int i) \<in> set (ReadDir (eventsDir (worldLog overflow_world)))"
  "suffix (concat (map (file_get (eventsDir (worldLog overflow_world)))
                       (ReadDir (eventsDir (worldLog overflow_world)))))
          (combinedLog (worldLog overflow_world))"
proof -
  from New_files_ok obtain w where n: "New example_env ''T'' ''logs'' = Inr w"
    and f: "files_ok w" and l: "length (events (worldLog w)) = 1"
    by blast
  define w1 where "w1 = create_events example_env 999 w"
  define w2 where "w2 = snd (newEvent example_env ''World: destroy'' w1)"
  define w3 where "w3 = Event_finish example_env (fst (newEvent example_env ''World: destroy'' w1)) w2"
  define w4 where "w4 = act Call_WorldLog_finish w3"
  define w5 where "w5 = snd (WorldLog_finish example_env w4)"
  have b: "length (events (worldLog w)) + 999 < 2 ^ 63" by (simp add: l)
  from create_events_files_ok[OF f b example_env_fields(2)]
  have f1: "files_ok w1" and l1: "length (events (worldLog w1)) = 1000"
    by (simp_all add: w1_def l)
  have b1: "length (events (worldLog w1)) < 2 ^ 63" by (simp add: l1)
  note n2 = newEvent_files_ok[OF f1 b1 example_env_fields(2), of "''World: destroy''", folded w2_def]
  have f3: "files_ok w3"
    unfolding w3_def using n2(1) by (rule Event_finish_files_ok)
  have l3: "length (events (worldLog w3)) = 1001"
    unfolding w3_def using n2(2) by (simp add: Event_finish_events l1)
  have f4: "files_ok w4" "worldLog w4 = worldLog w3"
    using f3 by (simp_all add: w4_def act_def files_ok_def)
  have e4: "enabled (worldLog w4)" using f4(1) by (simp add: files_ok_def)
  note fin = WorldLog_finish_ok[OF e4 example_env_fields(6,7,8), folded w5_def]
  have ev5: "events (worldLog w5) = events (worldLog w3)"
    unfolding w5_def using WorldLog_finish_times(3)[OF e4] by (simp add: f4(2))
  have d5: "eventsDir (worldLog w5) = eventsDir (worldLog w3)"
    using fin(1) by (simp add: f4(2))
  have o: "overflow_world = w5"
    by (simp add: overflow_world_def n Destroy_nothing w1_def[symmetric] w2_def[symmetric]
        w3_def[symmetric] w4_def[symmetric] w5_def[symmetric])
  show "length (events (worldLog overflow_world)) = 1001"
    by (simp add: o ev5 l3)
  show "map log (events (worldLog overflow_world))
       = map (\<lambda>i. Some (event_file (int i))) [0..<1001]"
    using f3 by (simp add: o ev5 files_ok_def l3)
  show "\<forall>i < 1001. event_file (int i) \<in> set (ReadDir (eventsDir (worldLog overflow_world)))"
    using f3 by (simp add: o d5 files_ok_def l3 ReadDir_def)
  show "suffix (concat (map (file_get (eventsDir (worldLog overflow_world)))
                       (ReadDir (eventsDir (worldLog overflow_world)))))
          (combinedLog (worldLog overflow_world))"
    using fin(4) by (simp add: o fin(1))
qed

text \<open>
  C7 (the code does not do this for every number of events). In the run
  \<open>overflow_world\<close> with the 1001 events 0 to 1000, each event has its file
  \<open>event_{id:03d}.log\<close>; the finalisation appends the files to the combined log in the
  order \<open>os.ReadDir\<close> lists them, sorted by name, and there \<open>event_1000.log\<close> comes before
  \<open>event_101.log\<close>: the output of event 1000 is written before that of event 101.
\<close>

theorem event_logs_not_in_id_order:
  "length (events (worldLog overflow_world)) = 1001
   \<and> log (events (worldLog overflow_world) ! 101) = Some ''event_101.log''
   \<and> log (events (worldLog overflow_world) ! 1000) = Some ''event_1000.log''
   \<and> suffix (concat (map (file_get (eventsDir (worldLog overflow_world)))
                         (ReadDir (eventsDir (worldLog overflow_world)))))
            (combinedLog (worldLog overflow_world))
   \<and> ''event_101.log'' \<in> set (ReadDir (eventsDir (worldLog overflow_world)))
   \<and> ''event_1000.log'' \<in> set (ReadDir (eventsDir (worldLog overflow_world)))
   \<and> index_of ''event_1000.log'' (ReadDir (eventsDir (worldLog overflow_world)))
       < index_of ''event_101.log'' (ReadDir (eventsDir (worldLog overflow_world)))"
proof -
  note o = overflow_world_facts
  have a: "''event_101.log'' \<in> set (ReadDir (eventsDir (worldLog overflow_world)))"
    using o(3)[rule_format, of 101] by (simp add: event_file_consts)
  have b: "''event_1000.log'' \<in> set (ReadDir (eventsDir (worldLog overflow_world)))"
    using o(3)[rule_format, of 1000] by (simp add: event_file_consts)
  have s: "sorted (ReadDir (eventsDir (worldLog overflow_world)))"
    by (simp add: ReadDir_def)
  have i: "index_of ''event_1000.log'' (ReadDir (eventsDir (worldLog overflow_world)))
       < index_of ''event_101.log'' (ReadDir (eventsDir (worldLog overflow_world)))"
    using s b a overflow_order by (rule index_of_sorted)
  have "map log (events (worldLog overflow_world)) ! 101 = Some (event_file (int 101))"
    unfolding o(2) by (subst nth_map) simp_all
  then have l1: "log (events (worldLog overflow_world) ! 101) = Some ''event_101.log''"
    by (simp add: o(1) event_file_consts)
  have "map log (events (worldLog overflow_world)) ! 1000 = Some (event_file (int 1000))"
    unfolding o(2) by (subst nth_map) simp_all
  then have l2: "log (events (worldLog overflow_world) ! 1000) = Some ''event_1000.log''"
    by (simp add: o(1) event_file_consts)
  from o(1,4) a b i l1 l2 show ?thesis by simp
qed

end
